theory Spec2Isabelle
  imports Main
begin

section \<open>Go types, values and memory as package reflect presents them\<close>

text \<open>
  The package \<open>entity\<close> works on Go values only through package \<open>reflect\<close>. The part of
  \<open>reflect\<close> that \<open>entity.go\<close> and \<open>field.go\<close> call is modelled here: type descriptors
  (\<open>reflect.Type\<close>), struct field descriptors (\<open>reflect.StructField\<close>), values in memory and
  \<open>reflect.Value\<close> handles. A Go panic is the error value \<open>Panic\<close>.
\<close>

datatype Kind = KInvalid | KBool | KInt | KUint | KFloat | KComplex | KString | KFunc
  | KInterface | KUnsafePointer | KArray | KChan | KMap | KPtr | KSlice | KStruct

text \<open>The kinds of types that have neither an element type nor fields.\<close>

datatype BasicKind = BBool | BInt | BUint | BFloat | BComplex | BString | BFunc
  | BInterface | BUnsafePointer

text \<open>
  A type descriptor. \<open>Basic k name pkgPath\<close> and \<open>StructOf name pkgPath fields\<close> carry
  \<open>Type.Name()\<close> and \<open>Type.PkgPath()\<close>. A struct field descriptor carries \<open>Name\<close>, \<open>PkgPath\<close>
  (empty exactly for an exported field), \<open>Type\<close>, \<open>Tag\<close> and \<open>Anonymous\<close> (true for an
  embedded field); the tag is kept as the list of its \<open>key:"value"\<close> pairs, which is all
  \<open>Tag.Get\<close> reads.
\<close>

datatype gotype =
    Basic BasicKind string string
  | PtrTo gotype
  | SliceOf gotype
  | ArrayOf nat gotype
  | MapOf gotype gotype
  | ChanOf gotype
  | StructOf string string "StructField list"
and StructField =
    MkStructField (Name_sf: string) (PkgPath_sf: string) (Type_sf: gotype)
      (Tag_sf: "(string \<times> string) list") (Anonymous_sf: bool)

fun kindOfBasic :: "BasicKind \<Rightarrow> Kind" where
  "kindOfBasic BBool = KBool"
| "kindOfBasic BInt = KInt"
| "kindOfBasic BUint = KUint"
| "kindOfBasic BFloat = KFloat"
| "kindOfBasic BComplex = KComplex"
| "kindOfBasic BString = KString"
| "kindOfBasic BFunc = KFunc"
| "kindOfBasic BInterface = KInterface"
| "kindOfBasic BUnsafePointer = KUnsafePointer"

text \<open>\<open>Type.Kind()\<close>, \<open>Type.Name()\<close> and \<open>Tag.Get(key)\<close>.\<close>

fun kindOf :: "gotype \<Rightarrow> Kind" where
  "kindOf (Basic k n p) = kindOfBasic k"
| "kindOf (PtrTo t) = KPtr"
| "kindOf (SliceOf t) = KSlice"
| "kindOf (ArrayOf n t) = KArray"
| "kindOf (MapOf k t) = KMap"
| "kindOf (ChanOf t) = KChan"
| "kindOf (StructOf n p fs) = KStruct"

fun Name_ty :: "gotype \<Rightarrow> string" where
  "Name_ty (Basic k n p) = n"
| "Name_ty (StructOf n p fs) = n"
| "Name_ty _ = []"

definition TagGet :: "(string \<times> string) list \<Rightarrow> string \<Rightarrow> string" where
  "TagGet tag key = (case map_of tag key of Some v \<Rightarrow> v | None \<Rightarrow> [])"

text \<open>
  Values. Booleans, integers (of every width) and strings are kept as they are; a pointer is
  \<open>VPtr None\<close> when nil and \<open>VPtr (Some a)\<close> when it points to the object at address \<open>a\<close>;
  a struct is the list of its field values. A value of any other kind (float, complex,
  func, interface, unsafe pointer, array, chan, map, slice) is an opaque code \<open>VOther n\<close>
  in which \<open>0\<close> codes the zero value of its type, the one value \<open>Value.IsZero\<close> accepts;
  the model does not look inside such a value (floating-point arithmetic, the elements of a
  slice).
\<close>

datatype val = VBool bool | VInt int | VString string | VOther nat | VPtr "nat option"
  | VStruct "val list"

text \<open>The zero value of a type, as \<open>reflect.New\<close> and a composite literal \<open>T{}\<close> make it.\<close>

fun zero :: "gotype \<Rightarrow> val"
  and zeroField :: "StructField \<Rightarrow> val"
  and zeroFields :: "StructField list \<Rightarrow> val list" where
  "zero (Basic k n p) =
     (if k = BBool then VBool False
      else if k = BInt \<or> k = BUint then VInt 0
      else if k = BString then VString []
      else VOther 0)"
| "zero (PtrTo t) = VPtr None"
| "zero (SliceOf t) = VOther 0"
| "zero (ArrayOf n t) = VOther 0"
| "zero (MapOf k t) = VOther 0"
| "zero (ChanOf t) = VOther 0"
| "zero (StructOf n p fs) = VStruct (zeroFields fs)"
| "zeroField (MkStructField n p t tg an) = zero t"
| "zeroFields [] = []"
| "zeroFields (f # fs) = zeroField f # zeroFields fs"

text \<open>\<open>Value.IsZero\<close> on the value held: a struct is zero when all its fields are.\<close>

fun isZero :: "val \<Rightarrow> bool" where
  "isZero (VBool b) = (\<not> b)"
| "isZero (VInt i) = (i = 0)"
| "isZero (VString s) = (s = [])"
| "isZero (VOther n) = (n = 0)"
| "isZero (VPtr p) = (p = None)"
| "isZero (VStruct vs) = list_all isZero vs"

text \<open>A value has the shape of a type (what a pointer points to is not looked at).\<close>

fun hasType :: "gotype \<Rightarrow> val \<Rightarrow> bool"
  and hasTypeField :: "StructField \<Rightarrow> val \<Rightarrow> bool"
  and hasTypes :: "StructField list \<Rightarrow> val list \<Rightarrow> bool" where
  "hasType (Basic k n p) v =
     (case v of
        VBool b \<Rightarrow> k = BBool
      | VInt i \<Rightarrow> k = BInt \<or> k = BUint
      | VString s \<Rightarrow> k = BString
      | VOther c \<Rightarrow> k \<noteq> BBool \<and> k \<noteq> BInt \<and> k \<noteq> BUint \<and> k \<noteq> BString
      | _ \<Rightarrow> False)"
| "hasType (PtrTo t) v = (case v of VPtr a \<Rightarrow> True | _ \<Rightarrow> False)"
| "hasType (SliceOf t) v = (case v of VOther c \<Rightarrow> True | _ \<Rightarrow> False)"
| "hasType (ArrayOf n t) v = (case v of VOther c \<Rightarrow> True | _ \<Rightarrow> False)"
| "hasType (MapOf k t) v = (case v of VOther c \<Rightarrow> True | _ \<Rightarrow> False)"
| "hasType (ChanOf t) v = (case v of VOther c \<Rightarrow> True | _ \<Rightarrow> False)"
| "hasType (StructOf n p fs) v = (case v of VStruct vs \<Rightarrow> hasTypes fs vs | _ \<Rightarrow> False)"
| "hasTypeField (MkStructField n p t tg an) v = hasType t v"
| "hasTypes [] vs = (vs = [])"
| "hasTypes (f # fs) vs =
     (case vs of [] \<Rightarrow> False | v # vs' \<Rightarrow> hasTypeField f v \<and> hasTypes fs vs')"

text \<open>
  Memory is a list of objects; an address is an index into it and allocation appends.
  A place inside an object is reached by a path of field positions.
\<close>

type_synonym heap = "val list"

fun get_at :: "val \<Rightarrow> nat list \<Rightarrow> val option" where
  "get_at v [] = Some v"
| "get_at (VStruct vs) (i # p) = (if i < length vs then get_at (vs ! i) p else None)"
| "get_at _ (i # p) = None"

fun set_at :: "val \<Rightarrow> nat list \<Rightarrow> val \<Rightarrow> val option" where
  "set_at v [] x = Some x"
| "set_at (VStruct vs) (i # p) x =
     (if i < length vs
      then (case set_at (vs ! i) p x of Some w \<Rightarrow> Some (VStruct (vs[i := w])) | None \<Rightarrow> None)
      else None)"
| "set_at _ (i # p) x = None"

text \<open>
  A \<open>reflect.Value\<close>: the zero Value, or a type, where the value is, and the two read-only
  flags of \<open>reflect\<close>, in this order: \<open>flagStickyRO\<close>, set on what is reached through an
  unexported field that is not embedded and kept on everything below it, and
  \<open>flagEmbedRO\<close>, set on an unexported embedded field itself and dropped again by the next
  \<open>Field\<close>. A Value is read-only when one of the two is set. An addressable Value is a place
  in memory (\<open>Loc\<close>); any other holds its own copy (\<open>Imm\<close>). An interface value (\<open>any\<close>) is
  nil or a type with a value.
\<close>

datatype place = Loc nat "nat list" | Imm val

datatype rvalue = InvalidValue | RV gotype place bool bool

datatype iface = NilIface | Iface gotype val

datatype error = ErrUnsupportedDataType | ErrIdFieldDoesNotExists | ErrTag string | Panic

definition bindE :: "error + 'a \<Rightarrow> ('a \<Rightarrow> error + 'b) \<Rightarrow> error + 'b" where
  "bindE m f = (case m of Inl e \<Rightarrow> Inl e | Inr x \<Rightarrow> f x)"

definition load :: "heap \<Rightarrow> place \<Rightarrow> val option" where
  "load h pl =
     (case pl of
        Imm v \<Rightarrow> Some v
      | Loc a path \<Rightarrow> (if a < length h then get_at (h ! a) path else None))"

text \<open>\<open>reflect.ValueOf\<close>, \<open>Value.Kind\<close>, \<open>Value.Type\<close> (panics on the zero Value), \<open>Type.Elem\<close>
  (panics unless the kind is Array, Chan, Map, Pointer or Slice).\<close>

definition reflect_ValueOf :: "iface \<Rightarrow> rvalue" where
  "reflect_ValueOf i =
     (case i of NilIface \<Rightarrow> InvalidValue | Iface t v \<Rightarrow> RV t (Imm v) False False)"

definition Kind_rv :: "rvalue \<Rightarrow> Kind" where
  "Kind_rv v = (case v of InvalidValue \<Rightarrow> KInvalid | RV t pl sro ero \<Rightarrow> kindOf t)"

definition Type_rv :: "rvalue \<Rightarrow> error + gotype" where
  "Type_rv v = (case v of InvalidValue \<Rightarrow> Inl Panic | RV t pl sro ero \<Rightarrow> Inr t)"

fun Elem_ty :: "gotype \<Rightarrow> error + gotype" where
  "Elem_ty (PtrTo t) = Inr t"
| "Elem_ty (SliceOf t) = Inr t"
| "Elem_ty (ArrayOf n t) = Inr t"
| "Elem_ty (MapOf k t) = Inr t"
| "Elem_ty (ChanOf t) = Inr t"
| "Elem_ty _ = Inl Panic"

text \<open>
  \<open>Value.Field(i)\<close>: panics unless the Value is a struct and \<open>i\<close> is the position of one of its
  fields. The result is addressable when the struct is. Of the flags of the struct it
  inherits \<open>flagStickyRO\<close> only; an unexported field adds \<open>flagEmbedRO\<close> when it is embedded
  and \<open>flagStickyRO\<close> when it is not.
\<close>

definition Field_rv :: "rvalue \<Rightarrow> int \<Rightarrow> error + rvalue" where
  "Field_rv v i =
     (case v of
        InvalidValue \<Rightarrow> Inl Panic
      | RV t pl sro ero \<Rightarrow>
          (case t of
             StructOf n p fs \<Rightarrow>
               if i < 0 \<or> int (length fs) \<le> i then Inl Panic
               else
                 (let f = fs ! nat i;
                      sro' = (sro \<or> (PkgPath_sf f \<noteq> [] \<and> \<not> Anonymous_sf f));
                      ero' = (PkgPath_sf f \<noteq> [] \<and> Anonymous_sf f)
                  in case pl of
                       Loc a path \<Rightarrow>
                         Inr (RV (Type_sf f) (Loc a (path @ [nat i])) sro' ero')
                     | Imm (VStruct vs) \<Rightarrow>
                         if nat i < length vs
                         then Inr (RV (Type_sf f) (Imm (vs ! nat i)) sro' ero')
                         else Inl Panic
                     | Imm _ \<Rightarrow> Inl Panic)
           | _ \<Rightarrow> Inl Panic))"

text \<open>
  \<open>Value.Elem\<close> of a pointer: the zero Value for a nil pointer, else the addressable object
  pointed to, with both read-only flags of the pointer. On a Value that is no pointer it panics; the \<open>Elem\<close> of an interface Value is
  left out, since this package takes \<open>Value.Elem\<close> only of Values whose type has an element
  type. \<open>reflect.Indirect\<close> returns its argument unless that is a pointer, and then its
  \<open>Elem\<close>.
\<close>

definition Elem_rv :: "heap \<Rightarrow> rvalue \<Rightarrow> error + rvalue" where
  "Elem_rv h v =
     (case v of
        InvalidValue \<Rightarrow> Inl Panic
      | RV t pl sro ero \<Rightarrow>
          (case t of
             PtrTo e \<Rightarrow>
               (case load h pl of
                  Some (VPtr None) \<Rightarrow> Inr InvalidValue
                | Some (VPtr (Some a)) \<Rightarrow> Inr (RV e (Loc a []) sro ero)
                | _ \<Rightarrow> Inl Panic)
           | _ \<Rightarrow> Inl Panic))"

definition Indirect :: "heap \<Rightarrow> rvalue \<Rightarrow> error + rvalue" where
  "Indirect h v = (if Kind_rv v \<noteq> KPtr then Inr v else Elem_rv h v)"

text \<open>
  \<open>Value.IsNil\<close> (panics unless the kind is Chan, Func, Interface, Map, Pointer, Slice or
  UnsafePointer), \<open>Value.IsZero\<close> (panics on the zero Value) and \<open>Value.Interface\<close> (panics on
  the zero Value and on a read-only Value).
\<close>

definition IsNil_rv :: "heap \<Rightarrow> rvalue \<Rightarrow> error + bool" where
  "IsNil_rv h v =
     (case v of
        InvalidValue \<Rightarrow> Inl Panic
      | RV t pl sro ero \<Rightarrow>
          if kindOf t \<in> {KChan, KFunc, KInterface, KMap, KPtr, KSlice, KUnsafePointer}
          then (case load h pl of
                  Some (VPtr a) \<Rightarrow> Inr (a = None)
                | Some (VOther c) \<Rightarrow> Inr (c = 0)
                | _ \<Rightarrow> Inl Panic)
          else Inl Panic)"

definition IsZero_rv :: "heap \<Rightarrow> rvalue \<Rightarrow> error + bool" where
  "IsZero_rv h v =
     (case v of
        InvalidValue \<Rightarrow> Inl Panic
      | RV t pl sro ero \<Rightarrow>
          (case load h pl of Some x \<Rightarrow> Inr (isZero x) | None \<Rightarrow> Inl Panic))"

definition Interface_rv :: "heap \<Rightarrow> rvalue \<Rightarrow> error + iface" where
  "Interface_rv h v =
     (case v of
        InvalidValue \<Rightarrow> Inl Panic
      | RV t pl sro ero \<Rightarrow>
          if sro \<or> ero then Inl Panic
          else (case load h pl of Some x \<Rightarrow> Inr (Iface t x) | None \<Rightarrow> Inl Panic))"

text \<open>
  \<open>reflect.New(t)\<close> allocates a zero \<open>t\<close> and returns the pointer to it. \<open>v.Set(x)\<close> panics
  unless \<open>v\<close> is addressable and not read-only and \<open>x\<close> has the type of \<open>v\<close>; it stores \<open>x\<close>
  at the place of \<open>v\<close>.
\<close>

definition reflect_New :: "heap \<Rightarrow> gotype \<Rightarrow> val \<times> heap" where
  "reflect_New h t = (VPtr (Some (length h)), h @ [zero t])"

definition Set_rv :: "heap \<Rightarrow> rvalue \<Rightarrow> val \<Rightarrow> error + heap" where
  "Set_rv h v x =
     (case v of
        RV t (Loc a path) sro ero \<Rightarrow>
          if sro \<or> ero then Inl Panic
          else if hasType t x \<and> a < length h then
            (case set_at (h ! a) path x of
               Some obj \<Rightarrow> Inr (h[a := obj])
             | None \<Rightarrow> Inl Panic)
          else Inl Panic
      | _ \<Rightarrow> Inl Panic)"

section \<open>field.go: the accessors of a field\<close>

text \<open>
  \<open>ValueOfFunc\<close> and \<open>ReflectOfFunc\<close> are closures over memory: each takes the memory and the
  \<open>reflect.Value\<close> of an instance, and returns its result with the memory it leaves, or
  panics.
\<close>

type_synonym ValueOfFunc = "heap \<Rightarrow> rvalue \<Rightarrow> error + (iface \<times> bool) \<times> heap"

type_synonym ReflectOfFunc = "heap \<Rightarrow> rvalue \<Rightarrow> error + rvalue \<times> heap"

text \<open>
  The loop of the general \<open>valueOf\<close> closure, \<open>for _, idx := range index\<close>, from the Value
  \<open>v\<close> reached so far, and the \<open>return v.Interface(), v.IsZero()\<close> after it.
\<close>

fun valueOfLoop :: "heap \<Rightarrow> rvalue \<Rightarrow> int list \<Rightarrow> error + (iface \<times> bool) \<times> heap" where
  "valueOfLoop h v [] =
     bindE (Interface_rv h v) (\<lambda>i. bindE (IsZero_rv h v) (\<lambda>z. Inr ((i, z), h)))"
| "valueOfLoop h v (idx # rest) =
     (if idx \<ge> 0 then
        (case Field_rv v idx of
           Inl e \<Rightarrow> Inl e
         | Inr v1 \<Rightarrow> valueOfLoop h v1 rest)
      else
        (case Field_rv v (- idx - 1) of
           Inl e \<Rightarrow> Inl e
         | Inr v1 \<Rightarrow>
             (case bindE (Type_rv v1) Elem_ty of
                Inl e \<Rightarrow> Inl e
              | Inr et \<Rightarrow>
                  if kindOf et = KStruct then
                    (case IsNil_rv h v1 of
                       Inl e \<Rightarrow> Inl e
                     | Inr isnil \<Rightarrow>
                         if \<not> isnil then
                           (case Elem_rv h v1 of
                              Inl e \<Rightarrow> Inl e
                            | Inr v2 \<Rightarrow> valueOfLoop h v2 rest)
                         else Inr ((NilIface, True), h))
                  else Inr ((NilIface, True), h))))"

text \<open>
  The loop of the general \<open>reflectOf\<close> closure, \<open>for idx, fieldIdx := range index\<close>: \<open>n\<close> is
  \<open>len(index)\<close>, \<open>idx\<close> the position of the entry \<open>fieldIdx\<close>. A nil pointer to a struct is
  given a new zero struct by \<open>v.Set(reflect.New(v.Type().Elem()))\<close>.
\<close>

fun reflectOfLoop :: "nat \<Rightarrow> heap \<Rightarrow> rvalue \<Rightarrow> nat \<Rightarrow> int list \<Rightarrow> error + rvalue \<times> heap" where
  "reflectOfLoop n h v idx [] = Inr (v, h)"
| "reflectOfLoop n h v idx (fieldIdx # rest) =
     (case (if fieldIdx \<ge> 0 then Field_rv v fieldIdx else Field_rv v (- fieldIdx - 1)) of
        Inl e \<Rightarrow> Inl e
      | Inr v1 \<Rightarrow>
          if Kind_rv v1 = KPtr then
            (case bindE (Type_rv v1) Elem_ty of
               Inl e \<Rightarrow> Inl e
             | Inr et \<Rightarrow>
                 (case (if kindOf et = KStruct then
                          bindE (IsNil_rv h v1) (\<lambda>isnil.
                            if isnil then
                              (let (p, h1) = reflect_New h et in Set_rv h1 v1 p)
                            else Inr h)
                        else Inr h) of
                    Inl e \<Rightarrow> Inl e
                  | Inr h2 \<Rightarrow>
                      if int idx < int n - 1 then
                        (case Elem_rv h2 v1 of
                           Inl e \<Rightarrow> Inl e
                         | Inr v2 \<Rightarrow> reflectOfLoop n h2 v2 (Suc idx) rest)
                      else reflectOfLoop n h2 v1 (Suc idx) rest))
          else reflectOfLoop n h v1 (Suc idx) rest)"

text \<open>\<open>setupValuerAndSetter\<close>: the two closures, chosen by the shape of the index path.\<close>

definition setupValuerAndSetter :: "int list \<Rightarrow> gotype \<Rightarrow> ValueOfFunc \<times> ReflectOfFunc" where
  "setupValuerAndSetter index fieldType =
     (let valueOf =
            (if length index = 1 then
               (\<lambda>h value.
                  bindE (Indirect h value) (\<lambda>v.
                  bindE (Field_rv v (index ! 0)) (\<lambda>fieldValue.
                  bindE (Interface_rv h fieldValue) (\<lambda>i.
                  bindE (IsZero_rv h fieldValue) (\<lambda>z. Inr ((i, z), h))))))
             else if length index = 2 \<and> index ! 0 \<ge> 0 then
               (\<lambda>h value.
                  bindE (Indirect h value) (\<lambda>v.
                  bindE (Field_rv v (index ! 0)) (\<lambda>v0.
                  bindE (Field_rv v0 (index ! 1)) (\<lambda>fieldValue.
                  bindE (Interface_rv h fieldValue) (\<lambda>i.
                  bindE (IsZero_rv h fieldValue) (\<lambda>z. Inr ((i, z), h)))))))
             else
               (\<lambda>h value. bindE (Indirect h value) (\<lambda>v. valueOfLoop h v index)));
          reflectOf =
            (if length index = 1 then
               (if kindOf fieldType = KPtr then
                  (\<lambda>h value.
                     bindE (Indirect h value) (\<lambda>v.
                     bindE (Field_rv v (index ! 0)) (\<lambda>fieldValue. Inr (fieldValue, h))))
                else
                  (\<lambda>h value.
                     bindE (Indirect h value) (\<lambda>v.
                     bindE (Field_rv v (index ! 0)) (\<lambda>fieldValue. Inr (fieldValue, h)))))
             else if length index = 2 \<and> index ! 0 \<ge> 0 \<and> kindOf fieldType \<noteq> KPtr then
               (\<lambda>h value.
                  bindE (Indirect h value) (\<lambda>v.
                  bindE (Field_rv v (index ! 0)) (\<lambda>v0.
                  bindE (Field_rv v0 (index ! 1)) (\<lambda>fieldValue. Inr (fieldValue, h)))))
             else
               (\<lambda>h value.
                  bindE (Indirect h value) (\<lambda>v. reflectOfLoop (length index) h v 0 index)))
      in (valueOf, reflectOf))"

section \<open>The descriptors: EntityField and Entity\<close>

text \<open>
  Modelled from the spec: \<open>StructTags\<close> and \<open>parseTags\<close> are not among the source files. The
  settings of a parsed tag carry the resolved key name, the skip flag and the inline flag;
  \<open>extractFields\<close> reads \<open>Skip\<close> and \<open>newField\<close> reads \<open>Name\<close>.
\<close>

record StructTags =
  Name_tg :: string
  Skip :: bool
  Inline :: bool

text \<open>
  The structs \<open>EntityField\<close> and \<open>Entity\<close>, member by member. The declaration of
  \<open>EntityField\<close> in \<open>field.go\<close> has the member \<open>Entity\<close>, the nested Entity of an inline
  field, commented out, and \<open>newField\<close> does not set it; \<open>entity.go\<close> still reads
  \<open>field.Entity\<close>, so the member is kept here (\<open>None\<close> is nil). A pointer member is an option. The two maps of an Entity have \<open>*EntityField\<close>
  values, so a key maps to an option: \<open>Some None\<close> is a key that is present with a nil
  pointer.
\<close>

datatype EntityField = MkEntityField
  (Name: string) (DBName: string) (Id_f: bool) (FieldType: gotype) (StructField: StructField)
  (StructTags: StructTags) (Entity: "Entity option") (index_f: int) (inlineIndex_f: "int list")
  (ReflectValueOf: ReflectOfFunc) (ValueOf: ValueOfFunc)
and Entity = MkEntity
  (Name_en: string) (ModelType: "gotype option") (Collection: string)
  (PrimaryField: "EntityField option") (DBNames: "string list")
  (PrimaryFields: "EntityField list") (PrimaryFieldDBNames: "string list")
  (Fields: "EntityField list") (AllFields: "EntityField list")
  (FieldsByName: "string \<Rightarrow> EntityField option option")
  (FieldsByDBName: "string \<Rightarrow> EntityField option option")

text \<open>
  \<open>newField\<close>. The struct literal sets \<open>Name\<close>, \<open>DBName\<close>, \<open>StructTags\<close>, \<open>Id\<close>, \<open>FieldType\<close>,
  \<open>StructField\<close>, \<open>index\<close>, \<open>ReflectValueOf\<close> and \<open>ValueOf\<close>; \<open>Entity\<close> and \<open>inlineIndex\<close> keep
  their zero values. It returns no error.
\<close>

definition newField :: "StructField \<Rightarrow> StructTags \<Rightarrow> int list \<Rightarrow> error + EntityField" where
  "newField structField structTags inlineIndex =
     (let index = (if length inlineIndex > 0 then inlineIndex ! (length inlineIndex - 1) else 0);
          (inlineValueOf, inlineReflectValueOf) =
             setupValuerAndSetter inlineIndex (Type_sf structField)
      in Inr (MkEntityField
                (Name_sf structField)
                (Name_tg structTags)
                (Name_tg structTags = ''_id'')
                (Type_sf structField)
                structField
                structTags
                None
                index
                []
                inlineReflectValueOf
                inlineValueOf))"

section \<open>entity.go: resolving an Entity\<close>

text \<open>
  What \<open>entity.go\<close> calls and the source files do not hold is a parameter of the model:
  \<open>parseTags\<close>, \<open>utils.LowerFirst\<close>, and for a struct type whether a pointer to it is a
  \<open>CollectionNameSupplier\<close> (then with the name its \<open>CollectionName()\<close> returns).
\<close>

record Deps =
  parseTags :: "string \<Rightarrow> string \<Rightarrow> error + StructTags"
  LowerFirst :: "string \<Rightarrow> string"
  CollectionNameOf :: "gotype \<Rightarrow> string option"

text \<open>
  The loop of \<open>extractFields\<close>, \<open>for i := 0; i < modelType.NumField(); i++\<close>: \<open>i\<close> is the
  position of the struct field at the head of the fields still to visit, \<open>flds\<close> and
  \<open>allFields\<close> are the two result slices so far.
\<close>

fun extractFieldsLoop ::
  "Deps \<Rightarrow> int list \<Rightarrow> nat \<Rightarrow> StructField list \<Rightarrow> EntityField list \<Rightarrow> EntityField list
     \<Rightarrow> error + EntityField list \<times> EntityField list" where
  "extractFieldsLoop deps index i [] flds allFields = Inr (flds, allFields)"
| "extractFieldsLoop deps index i (structField # rest) flds allFields =
     (let cloneIndex = index @ [int i];
          tag = TagGet (Tag_sf structField) ''bson''
      in case parseTags deps (LowerFirst deps (Name_sf structField)) tag of
           Inl err \<Rightarrow> Inl err
         | Inr structTags \<Rightarrow>
             if Skip structTags then extractFieldsLoop deps index (Suc i) rest flds allFields
             else
               (case newField structField structTags cloneIndex of
                  Inl err \<Rightarrow> Inl err
                | Inr field \<Rightarrow>
                    extractFieldsLoop deps index (Suc i) rest (flds @ [field])
                      (case Entity field of
                         Some e \<Rightarrow> allFields @ Fields e
                       | None \<Rightarrow> allFields @ [field])))"

text \<open>\<open>extractFields\<close>; \<open>Type.NumField\<close> panics on a type that is not a struct.\<close>

definition extractFields ::
  "Deps \<Rightarrow> gotype \<Rightarrow> int list \<Rightarrow> error + EntityField list \<times> EntityField list" where
  "extractFields deps modelType index =
     (case modelType of
        StructOf n p fs \<Rightarrow> extractFieldsLoop deps index 0 fs [] []
      | _ \<Rightarrow> Inl Panic)"

lemma size_Fields_of_Entity:
  "Entity field = Some e \<Longrightarrow> size_list size (Fields e) < size field"
  by (cases field; cases e) simp

function extractIdField :: "EntityField list \<Rightarrow> EntityField option" where
  "extractIdField [] = None"
| "extractIdField (field # rest) =
     (case Entity field of
        Some e \<Rightarrow>
          (case extractIdField (Fields e) of
             Some idField \<Rightarrow> Some idField
           | None \<Rightarrow> extractIdField rest)
      | None \<Rightarrow> (if Id_f field then Some field else extractIdField rest))"
  by pat_completeness auto
termination
  by (relation "measure (size_list size)") (auto dest: size_Fields_of_Entity)

text \<open>
  Go's two-valued map read \<open>v, ok := m[key]\<close> on a map of pointers: for a key that is not
  in the map, \<open>v\<close> is the nil pointer and \<open>ok\<close> is false.
\<close>

definition mapRead :: "(string \<Rightarrow> 'a option option) \<Rightarrow> string \<Rightarrow> 'a option \<times> bool" where
  "mapRead m key = (case m key of Some v \<Rightarrow> (v, True) | None \<Rightarrow> (None, False))"

fun makeFieldsLoop ::
  "EntityField list \<Rightarrow> (string \<Rightarrow> EntityField option option)
     \<Rightarrow> (string \<Rightarrow> EntityField option option)
     \<Rightarrow> (string \<Rightarrow> EntityField option option) \<times> (string \<Rightarrow> EntityField option option)" where
  "makeFieldsLoop [] fieldsByName fieldsByDBName = (fieldsByName, fieldsByDBName)"
| "makeFieldsLoop (field # rest) fieldsByName fieldsByDBName =
     (let fieldsByDBName' =
            (case mapRead fieldsByDBName (DBName field) of
               (v, ok) \<Rightarrow> if \<not> ok then fieldsByDBName(DBName field \<mapsto> v) else fieldsByDBName);
          fieldsByName' =
            (case mapRead fieldsByName (Name field) of
               (v, ok) \<Rightarrow> if \<not> ok then fieldsByName(Name field \<mapsto> v) else fieldsByName)
      in makeFieldsLoop rest fieldsByName' fieldsByDBName')"

definition makeFieldsByNameAndByDBName ::
  "EntityField list
     \<Rightarrow> (string \<Rightarrow> EntityField option option) \<times> (string \<Rightarrow> EntityField option option)" where
  "makeFieldsByNameAndByDBName flds = makeFieldsLoop flds Map.empty Map.empty"

text \<open>
  The state of the package: \<open>cacheStore\<close>, from a type to the pointer stored for it, and the
  Entity objects allocated so far. A \<open>*Entity\<close> is \<open>None\<close> when nil, else the address of an
  object in \<open>entities\<close>; two pointers are the same Entity exactly when they are equal. The
  mutex of \<open>GetOrParse\<close> has no effect on one caller running alone and is not modelled.
\<close>

type_synonym EntityPtr = "nat option"

record State =
  cacheStore :: "gotype \<Rightarrow> EntityPtr option"
  entities :: "Entity list"

text \<open>The Entity that \<open>&Entity{}\<close> allocates: every member has its zero value.\<close>

definition zeroEntity :: Entity where
  "zeroEntity = MkEntity [] None [] None [] [] [] [] [] Map.empty Map.empty"

text \<open>The loop that strips slice, array and pointer layers from a type.\<close>

fun unwrap :: "gotype \<Rightarrow> gotype" where
  "unwrap (PtrTo t) = unwrap t"
| "unwrap (SliceOf t) = unwrap t"
| "unwrap (ArrayOf n t) = unwrap t"
| "unwrap t = t"

text \<open>
  \<open>newEntityByModelType\<close>. Both branches for a type that is not a struct wrap
  \<open>ErrUnsupportedDataType\<close>; the text of the message is not modelled. The assignments at the
  end set \<open>Name\<close>, \<open>ModelType\<close>, \<open>Fields\<close>, \<open>AllFields\<close>, \<open>Collection\<close>, \<open>FieldsByName\<close> and
  \<open>FieldsByDBName\<close> of the allocated Entity, in the order of the members:
  \<open>entity.AllFields = fields\<close>, and the other members keep their zero values.
\<close>

definition newEntityByModelType ::
  "Deps \<Rightarrow> State \<Rightarrow> gotype \<Rightarrow> int list \<Rightarrow> (error + EntityPtr) \<times> State" where
  "newEntityByModelType deps s modelType0 index =
     (let modelType = unwrap modelType0 in
      if kindOf modelType \<noteq> KStruct then (Inl ErrUnsupportedDataType, s)
      else
        (case cacheStore s modelType of
           Some v \<Rightarrow> (Inr v, s)
         | None \<Rightarrow>
             (let collectionName =
                    (case CollectionNameOf deps modelType of
                       Some name \<Rightarrow> name
                     | None \<Rightarrow> LowerFirst deps (Name_ty modelType));
                  entity = length (entities s);
                  s1 = s\<lparr>entities := entities s @ [zeroEntity]\<rparr>
              in case extractFields deps modelType index of
                   Inl err \<Rightarrow> (Inl err, s1)
                 | Inr (flds, allFields) \<Rightarrow>
                     (case extractIdField allFields of
                        None \<Rightarrow> (Inl ErrIdFieldDoesNotExists, s1)
                      | Some idField \<Rightarrow>
                          (case makeFieldsByNameAndByDBName flds of
                             (fieldsByName, fieldsByDBName) \<Rightarrow>
                               (Inr (Some entity),
                                s1\<lparr>entities := (entities s1)[entity :=
                                  MkEntity (Name_ty modelType) (Some modelType) collectionName
                                    None [] [] [] flds flds fieldsByName fieldsByDBName]\<rparr>))))))"

text \<open>\<open>newEntity\<close>: a nil \<open>dest\<close> is refused before its type is taken.\<close>

definition newEntity :: "Deps \<Rightarrow> State \<Rightarrow> iface \<Rightarrow> (error + EntityPtr) \<times> State" where
  "newEntity deps s dest =
     (if dest = NilIface then (Inl ErrUnsupportedDataType, s)
      else
        (case Type_rv (reflect_ValueOf dest) of
           Inl e \<Rightarrow> (Inl e, s)
         | Inr modelType \<Rightarrow> newEntityByModelType deps s modelType []))"

definition LookUpField :: "Entity \<Rightarrow> string \<Rightarrow> EntityField option" where
  "LookUpField th name =
     (case mapRead (FieldsByDBName th) name of
        (field, True) \<Rightarrow> field
      | (_, False) \<Rightarrow>
          (case mapRead (FieldsByName th) name of
             (field, True) \<Rightarrow> field
           | (_, False) \<Rightarrow> None))"

definition PrimaryKeyDBName :: "Entity \<Rightarrow> string" where
  "PrimaryKeyDBName th =
     (case PrimaryField th of Some f \<Rightarrow> DBName f | None \<Rightarrow> ''_id'')"

text \<open>\<open>GetModelType\<close> takes \<open>reflect.ValueOf(dest).Type()\<close> with no test of \<open>dest\<close>.\<close>

definition GetModelType :: "iface \<Rightarrow> error + gotype" where
  "GetModelType dest = bindE (Type_rv (reflect_ValueOf dest)) (\<lambda>modelType. Inr (unwrap modelType))"

text \<open>
  \<open>GetOrParse\<close>, the entry point. After the first read of the cache misses, the cache is read
  again (under the mutex); were the type there by then, the named result \<open>entity\<close> would
  still be nil and be returned with a nil error.
\<close>

definition GetOrParse :: "Deps \<Rightarrow> State \<Rightarrow> iface \<Rightarrow> (error + EntityPtr) \<times> State" where
  "GetOrParse deps s dest =
     (case GetModelType dest of
        Inl e \<Rightarrow> (Inl e, s)
      | Inr modelType \<Rightarrow>
          if kindOf modelType \<noteq> KStruct then (Inl ErrUnsupportedDataType, s)
          else
            (case cacheStore s modelType of
               Some v \<Rightarrow> (Inr v, s)
             | None \<Rightarrow>
                 (case cacheStore s modelType of
                    Some v \<Rightarrow> (Inr None, s)
                  | None \<Rightarrow>
                      (case newEntity deps s dest of
                         (Inl err, s1) \<Rightarrow> (Inl err, s1)
                       | (Inr entity, s1) \<Rightarrow>
                           (Inr entity,
                            s1\<lparr>cacheStore := (cacheStore s1)(modelType \<mapsto> entity)\<rparr>)))))"

text \<open>The Entity a pointer refers to.\<close>

definition deref :: "State \<Rightarrow> EntityPtr \<Rightarrow> Entity option" where
  "deref s p =
     (case p of
        None \<Rightarrow> None
      | Some a \<Rightarrow> (if a < length (entities s) then Some (entities s ! a) else None))"


section \<open>Notions used to state the properties\<close>

text \<open>
  The tag settings of a struct field, as the loop of \<open>extractFields\<close> computes them:
  \<open>parseTags(utils.LowerFirst(structField.Name), structField.Tag.Get("bson"))\<close>.
\<close>

definition tagsOf :: "Deps \<Rightarrow> StructField \<Rightarrow> error + StructTags" where
  "tagsOf deps structField =
     parseTags deps (LowerFirst deps (Name_sf structField)) (TagGet (Tag_sf structField) ''bson'')"

text \<open>A struct field whose tag parses and is not marked to be skipped.\<close>

definition kept :: "Deps \<Rightarrow> StructField \<Rightarrow> bool" where
  "kept deps structField =
     (case tagsOf deps structField of Inr t \<Rightarrow> \<not> Skip t | Inl e \<Rightarrow> False)"

text \<open>
  The \<open>reflect.Value\<close> of a pointer to an instance of type \<open>t\<close> that lies at address \<open>a\<close>:
  \<open>reflect.ValueOf(&instance)\<close>.
\<close>

definition instanceValue :: "gotype \<Rightarrow> nat \<Rightarrow> rvalue" where
  "instanceValue t a = RV (PtrTo t) (Imm (VPtr (Some a))) False False"

text \<open>The struct field at a position of a struct type.\<close>

fun fieldAt :: "gotype \<Rightarrow> nat \<Rightarrow> StructField option" where
  "fieldAt (StructOf n p fs) i = (if i < length fs then Some (fs ! i) else None)"
| "fieldAt _ i = None"

text \<open>
  The Value reached from \<open>v\<close> along entries of an index path that lead through structs that
  are there: a non-negative entry selects a field that is a struct (value embedding), a
  negative entry \<open>-j-1\<close> goes through the field at position \<open>j\<close>, a pointer to a struct that
  is not nil.
\<close>

fun walk :: "heap \<Rightarrow> rvalue \<Rightarrow> int list \<Rightarrow> rvalue option" where
  "walk h v [] = Some v"
| "walk h v (e # es) =
     (case Field_rv v (if e \<ge> 0 then e else - e - 1) of
        Inl err \<Rightarrow> None
      | Inr v1 \<Rightarrow>
          if e \<ge> 0 then (if Kind_rv v1 = KStruct then walk h v1 es else None)
          else
            (case v1 of
               RV (PtrTo E) pl sro ero \<Rightarrow>
                 if kindOf E = KStruct then
                   (case Elem_rv h v1 of
                      Inr (RV E' pl' sro' ero') \<Rightarrow> walk h (RV E' pl' sro' ero') es
                    | _ \<Rightarrow> None)
                 else None
             | _ \<Rightarrow> None))"

text \<open>
  Memory \<open>h'\<close> keeps the links of memory \<open>h\<close>: every object of \<open>h\<close> is still there, and
  every place that held a pointer that is not nil still holds it.
\<close>

definition linksKept :: "heap \<Rightarrow> heap \<Rightarrow> bool" where
  "linksKept h h' =
     (length h \<le> length h' \<and>
      (\<forall>c q y. c < length h \<and> get_at (h ! c) q = Some (VPtr (Some y))
          \<longrightarrow> get_at (h' ! c) q = Some (VPtr (Some y))))"

section \<open>Concrete collaborators and record types\<close>

text \<open>
  Modelled from the spec: \<open>utils.LowerFirst\<close> is not among the source files; the spec calls
  its result the lowercased-initial form of a name.
\<close>

definition LowerFirst_spec :: "string \<Rightarrow> string" where
  "LowerFirst_spec name =
     (case name of
        [] \<Rightarrow> []
      | c # cs \<Rightarrow>
          (case map_of (zip ''ABCDEFGHIJKLMNOPQRSTUVWXYZ'' ''abcdefghijklmnopqrstuvwxyz'') c of
             Some l \<Rightarrow> l # cs
           | None \<Rightarrow> c # cs))"

fun splitComma :: "string \<Rightarrow> string list" where
  "splitComma [] = [[]]"
| "splitComma (c # cs) =
     (if c = CHR '','' then [] # splitComma cs
      else (case splitComma cs of t # ts \<Rightarrow> (c # t) # ts | [] \<Rightarrow> [[c]]))"

text \<open>
  Modelled from the spec: \<open>parseTags\<close> is not among the source files. By the spec the tag is
  a list of comma-delimited tokens; the resolved key name is the explicit override (the first
  token) and else the default name, the tag \<open>-\<close> marks a field to skip, an \<open>inline\<close> token
  marks an embedding, and parsing does not fail.
\<close>

definition parseTags_spec :: "string \<Rightarrow> string \<Rightarrow> error + StructTags" where
  "parseTags_spec defaultName rawTag =
     (let tokens = splitComma rawTag
      in Inr \<lparr>Name_tg = (if hd tokens = [] then defaultName else hd tokens),
              Skip = (rawTag = ''-''),
              Inline = (''inline'' \<in> set (tl tokens))\<rparr>)"

definition specDeps :: Deps where
  "specDeps = \<lparr>parseTags = parseTags_spec, LowerFirst = LowerFirst_spec,
               CollectionNameOf = (\<lambda>t. None)\<rparr>"

definition emptyState :: State where
  "emptyState = \<lparr>cacheStore = Map.empty, entities = []\<rparr>"

text \<open>
  The record type \<open>Test\<close> of the repository's tests (\<open>primitive.ObjectID\<close> is an array of 12
  bytes), a record type \<open>NoId\<close> with no identity field, and a record type \<open>Outer\<close> with an
  embedded record \<open>Inner\<close>, once by value and once through a pointer.
\<close>

definition ObjectID :: gotype where
  "ObjectID = ArrayOf 12 (Basic BUint ''uint8'' [])"

definition TestT :: gotype where
  "TestT = StructOf ''Test'' ''jmongo''
     [MkStructField ''Id'' [] ObjectID [(''bson'', ''_id,omitempty'')] False,
      MkStructField ''Name'' [] (Basic BString ''string'' []) [(''bson'', ''name'')] False,
      MkStructField ''Age'' [] (Basic BInt ''int'' []) [(''bson'', ''happy'')] False,
      MkStructField ''HelloWorld'' [] (Basic BInt ''int'' []) [(''bson'', ''hello_world'')] False,
      MkStructField ''UserPassword'' [] (Basic BInt ''int'' []) [] False,
      MkStructField ''OrderId'' [] ObjectID [(''bson'', ''orderId,omitempty'')] False]"

definition NoIdT :: gotype where
  "NoIdT = StructOf ''NoId'' ''jmongo''
     [MkStructField ''Name'' [] (Basic BString ''string'' []) [(''bson'', ''name'')] False]"

definition InnerT :: gotype where
  "InnerT = StructOf ''Inner'' ''jmongo''
     [MkStructField ''A'' [] (Basic BString ''string'' []) [] False,
      MkStructField ''B'' [] (Basic BInt ''int'' []) [] False]"

definition OuterT :: gotype where
  "OuterT = StructOf ''Outer'' ''jmongo''
     [MkStructField ''Id'' [] ObjectID [(''bson'', ''_id'')] False,
      MkStructField ''Inner'' [] InnerT [(''bson'', '',inline'')] True,
      MkStructField ''C'' [] (Basic BInt ''int'' []) [] False]"

text \<open>
  Record types with unexported fields: \<open>Secret\<close> with an unexported field \<open>secret\<close>,
  \<open>HiddenPtr\<close> with an unexported pointer \<open>inner\<close> to the record \<open>Inner\<close>, and \<open>Emb\<close> that
  embeds a struct of an unexported type \<open>inner\<close> with one exported field \<open>X\<close>. \<open>Wrap\<close> holds by
  value a record \<open>Mid\<close> whose field \<open>P\<close> is a pointer to \<open>Inner\<close>.
\<close>

definition SecretT :: gotype where
  "SecretT = StructOf ''Secret'' ''jmongo''
     [MkStructField ''Id'' [] ObjectID [(''bson'', ''_id'')] False,
      MkStructField ''secret'' ''jmongo'' (Basic BInt ''int'' []) [] False]"

definition HiddenPtrT :: gotype where
  "HiddenPtrT = StructOf ''HiddenPtr'' ''jmongo''
     [MkStructField ''Id'' [] ObjectID [(''bson'', ''_id'')] False,
      MkStructField ''inner'' ''jmongo'' (PtrTo InnerT) [] False,
      MkStructField ''C'' [] (Basic BInt ''int'' []) [] False]"

definition EmbT :: gotype where
  "EmbT = StructOf ''Emb'' ''jmongo''
     [MkStructField ''Id'' [] ObjectID [(''bson'', ''_id'')] False,
      MkStructField ''inner'' ''jmongo''
        (StructOf ''inner'' ''jmongo'' [MkStructField ''X'' [] (Basic BInt ''int'' []) [] False])
        [] True]"

definition MidT :: gotype where
  "MidT = StructOf ''Mid'' ''jmongo'' [MkStructField ''P'' [] (PtrTo InnerT) [] False]"

definition WrapT :: gotype where
  "WrapT = StructOf ''Wrap'' ''jmongo''
     [MkStructField ''Id'' [] ObjectID [(''bson'', ''_id'')] False,
      MkStructField ''Mid'' [] MidT [] False]"

definition OuterPtrT :: gotype where
  "OuterPtrT = StructOf ''OuterPtr'' ''jmongo''
     [MkStructField ''Id'' [] ObjectID [(''bson'', ''_id'')] False,
      MkStructField ''Inner'' [] (PtrTo InnerT) [(''bson'', '',inline'')] True,
      MkStructField ''C'' [] (Basic BInt ''int'' []) [] False]"

section \<open>Facts about resolution\<close>

lemma bindE_simps [simp]: "bindE (Inl e) f = Inl e" "bindE (Inr x) f = f x"
  by (simp_all add: bindE_def)

lemma newField_eq:
  "newField sf tags idx =
     Inr (MkEntityField (Name_sf sf) (Name_tg tags) (Name_tg tags = ''_id'') (Type_sf sf) sf tags None
            (if length idx > 0 then idx ! (length idx - 1) else 0) []
            (snd (setupValuerAndSetter idx (Type_sf sf)))
            (fst (setupValuerAndSetter idx (Type_sf sf))))"
  by (simp add: newField_def Let_def split: prod.splits)

lemma extractFieldsLoop_shape:
  "extractFieldsLoop deps index i sfs flds allFields = Inr (F, A) \<Longrightarrow>
   \<exists>new. F = flds @ new \<and> A = allFields @ new \<and>
     map StructField new = filter (kept deps) sfs \<and>
     (\<forall>f \<in> set new. \<exists>k t. k < length sfs \<and> tagsOf deps (sfs ! k) = Inr t \<and> \<not> Skip t \<and>
        newField (sfs ! k) t (index @ [int (i + k)]) = Inr f)"
proof (induction sfs arbitrary: i flds allFields)
  case Nil
  then show ?case by simp
next
  case (Cons sf rest)
  show ?case
  proof (cases "tagsOf deps sf")
    case (Inl e)
    with Cons.prems show ?thesis by (simp add: tagsOf_def Let_def)
  next
    case (Inr t)
    show ?thesis
    proof (cases "Skip t")
      case True
      with Cons.prems Inr
      have "extractFieldsLoop deps index (Suc i) rest flds allFields = Inr (F, A)"
        by (simp add: tagsOf_def Let_def)
      from Cons.IH[OF this] obtain new where
        n: "F = flds @ new" "A = allFields @ new" "map StructField new = filter (kept deps) rest"
        "\<forall>f \<in> set new. \<exists>k t. k < length rest \<and> tagsOf deps (rest ! k) = Inr t \<and> \<not> Skip t \<and>
            newField (rest ! k) t (index @ [int (Suc i + k)]) = Inr f"
        by blast
      have "\<forall>f \<in> set new. \<exists>k t. k < length (sf # rest) \<and> tagsOf deps ((sf # rest) ! k) = Inr t \<and> \<not> Skip t \<and>
            newField ((sf # rest) ! k) t (index @ [int (i + k)]) = Inr f"
      proof
        fix f assume "f \<in> set new"
        with n(4) obtain k t where "k < length rest" "tagsOf deps (rest ! k) = Inr t" "\<not> Skip t"
          "newField (rest ! k) t (index @ [int (Suc i + k)]) = Inr f" by blast
        then show "\<exists>k t. k < length (sf # rest) \<and> tagsOf deps ((sf # rest) ! k) = Inr t \<and> \<not> Skip t \<and>
            newField ((sf # rest) ! k) t (index @ [int (i + k)]) = Inr f"
          by (intro exI[of _ "Suc k"] exI[of _ t]) simp
      qed
      moreover have "\<not> kept deps sf" using True Inr by (simp add: kept_def)
      ultimately show ?thesis using n(1,2,3) by (intro exI[of _ new]) simp
    next
      case False
      obtain fld where fld: "newField sf t (index @ [int i]) = Inr fld" and ent: "Entity fld = None"
        and sfld: "StructField fld = sf"
        by (simp add: newField_eq)
      with Cons.prems Inr False
      have "extractFieldsLoop deps index (Suc i) rest (flds @ [fld]) (allFields @ [fld]) = Inr (F, A)"
        by (simp add: tagsOf_def Let_def)
      from Cons.IH[OF this] obtain new where
        n: "F = (flds @ [fld]) @ new" "A = (allFields @ [fld]) @ new" "map StructField new = filter (kept deps) rest"
        "\<forall>f \<in> set new. \<exists>k t. k < length rest \<and> tagsOf deps (rest ! k) = Inr t \<and> \<not> Skip t \<and>
            newField (rest ! k) t (index @ [int (Suc i + k)]) = Inr f"
        by blast
      have "\<forall>f \<in> set (fld # new). \<exists>k t. k < length (sf # rest) \<and> tagsOf deps ((sf # rest) ! k) = Inr t \<and> \<not> Skip t \<and>
            newField ((sf # rest) ! k) t (index @ [int (i + k)]) = Inr f"
      proof
        fix f assume "f \<in> set (fld # new)"
        then consider "f = fld" | "f \<in> set new" by auto
        then show "\<exists>k t. k < length (sf # rest) \<and> tagsOf deps ((sf # rest) ! k) = Inr t \<and> \<not> Skip t \<and>
            newField ((sf # rest) ! k) t (index @ [int (i + k)]) = Inr f"
        proof cases
          case 1
          with fld Inr False show ?thesis by (intro exI[of _ 0] exI[of _ t]) simp
        next
          case 2
          with n(4) obtain k t where "k < length rest" "tagsOf deps (rest ! k) = Inr t" "\<not> Skip t"
            "newField (rest ! k) t (index @ [int (Suc i + k)]) = Inr f" by blast
          then show ?thesis by (intro exI[of _ "Suc k"] exI[of _ t]) simp
        qed
      qed
      moreover have "kept deps sf" using False Inr by (simp add: kept_def)
      then have "map StructField (fld # new) = filter (kept deps) (sf # rest)"
        using n(3) sfld by simp
      ultimately show ?thesis using n(1,2) by (intro exI[of _ "fld # new"]) simp
    qed
  qed
qed

lemma extractFieldsLoop_total:
  "\<forall>sf \<in> set sfs. \<exists>t. tagsOf deps sf = Inr t \<Longrightarrow>
   \<exists>F A. extractFieldsLoop deps index i sfs flds allFields = Inr (F, A)"
proof (induction sfs arbitrary: i flds allFields)
  case Nil
  then show ?case by simp
next
  case (Cons sf rest)
  then obtain t where t: "tagsOf deps sf = Inr t" by auto
  from Cons have IH: "\<And>i flds allFields. \<exists>F A. extractFieldsLoop deps index i rest flds allFields = Inr (F, A)"
    by simp
  show ?case using t IH by (simp add: tagsOf_def Let_def newField_eq)
qed

lemma extractIdField_no_Entity:
  "\<forall>f \<in> set fs. Entity f = None \<Longrightarrow> extractIdField fs = find Id_f fs"
  by (induction fs) auto


lemma makeFieldsLoop_nil:
  "makeFieldsLoop fs byName byDBName = (byName', byDBName') \<Longrightarrow>
   \<forall>k v. byName k = Some v \<longrightarrow> v = None \<Longrightarrow> \<forall>k v. byDBName k = Some v \<longrightarrow> v = None \<Longrightarrow>
   (\<forall>k v. byName' k = Some v \<longrightarrow> v = None) \<and> (\<forall>k v. byDBName' k = Some v \<longrightarrow> v = None)"
proof (induction fs arbitrary: byName byDBName)
  case Nil
  then show ?case by simp
next
  case (Cons f fs)
  show ?case
    by (rule Cons.IH[OF Cons.prems(1)[simplified makeFieldsLoop.simps Let_def]])
       (use Cons.prems(2,3) in \<open>auto simp: mapRead_def split: option.splits if_splits\<close>)
qed

lemma makeFieldsLoop_dom:
  "makeFieldsLoop fs byName byDBName = (byName', byDBName') \<Longrightarrow>
   dom byName' = dom byName \<union> Name ` set fs \<and> dom byDBName' = dom byDBName \<union> DBName ` set fs"
proof (induction fs arbitrary: byName byDBName)
  case Nil
  then show ?case by simp
next
  case (Cons f fs)
  from Cons.IH[OF Cons.prems(1)[simplified makeFieldsLoop.simps Let_def]]
  show ?case by (auto simp: mapRead_def split: option.splits if_splits)
qed

lemma GetOrParse_nil: "GetOrParse deps s NilIface = (Inl Panic, s)"
  by (simp add: GetOrParse_def GetModelType_def reflect_ValueOf_def Type_rv_def)

lemma GetOrParse_not_struct:
  "kindOf (unwrap t) \<noteq> KStruct \<Longrightarrow> GetOrParse deps s (Iface t v) = (Inl ErrUnsupportedDataType, s)"
  by (simp add: GetOrParse_def GetModelType_def reflect_ValueOf_def Type_rv_def)

lemma GetOrParse_hit:
  "kindOf (unwrap t) = KStruct \<Longrightarrow> cacheStore s (unwrap t) = Some p \<Longrightarrow>
   GetOrParse deps s (Iface t v) = (Inr p, s)"
  by (simp add: GetOrParse_def GetModelType_def reflect_ValueOf_def Type_rv_def)

lemma GetOrParse_miss:
  assumes "unwrap t = StructOf n p fs" and "cacheStore s (StructOf n p fs) = None"
  shows "GetOrParse deps s (Iface t v) =
    (case extractFieldsLoop deps [] 0 fs [] [] of
       Inl err \<Rightarrow> (Inl err, s\<lparr>entities := entities s @ [zeroEntity]\<rparr>)
     | Inr (flds, allFields) \<Rightarrow>
         (case extractIdField allFields of
            None \<Rightarrow> (Inl ErrIdFieldDoesNotExists, s\<lparr>entities := entities s @ [zeroEntity]\<rparr>)
          | Some idField \<Rightarrow>
              (Inr (Some (length (entities s))),
               \<lparr>cacheStore = (cacheStore s)(StructOf n p fs \<mapsto> Some (length (entities s))),
                entities = entities s @
                  [MkEntity n (Some (StructOf n p fs))
                     (case CollectionNameOf deps (StructOf n p fs) of
                        Some name \<Rightarrow> name | None \<Rightarrow> LowerFirst deps n)
                     None [] [] [] flds flds
                     (fst (makeFieldsByNameAndByDBName flds))
                     (snd (makeFieldsByNameAndByDBName flds))]\<rparr>)))"
  using assms
  by (simp add: GetOrParse_def GetModelType_def reflect_ValueOf_def Type_rv_def newEntity_def
      newEntityByModelType_def extractFields_def Let_def
      split: sum.splits prod.splits option.splits)


lemma kindOfBasic_not_composite:
  "kindOfBasic k \<noteq> KPtr \<and> kindOfBasic k \<noteq> KSlice \<and> kindOfBasic k \<noteq> KArray \<and> kindOfBasic k \<noteq> KStruct"
  by (cases k) simp_all

lemma GetModelType_Inr:
  "GetModelType dest = Inr T \<Longrightarrow> \<exists>t v. dest = Iface t v \<and> unwrap t = T"
  by (cases dest) (auto simp: GetModelType_def reflect_ValueOf_def Type_rv_def)



lemma kindOf_struct: "kindOf T = KStruct \<Longrightarrow> \<exists>n pk fs. T = StructOf n pk fs"
  by (cases T) (simp_all add: kindOfBasic_not_composite)




lemma GetOrParse_error_cache:
  assumes "GetOrParse deps s dest = (Inl e, s')"
  shows "cacheStore s' = cacheStore s \<and> fst (GetOrParse deps s' dest) = Inl e"
proof (cases dest)
  case NilIface
  with assms show ?thesis by (auto simp: GetOrParse_nil)
next
  case (Iface t v')
  show ?thesis
  proof (cases "kindOf (unwrap t) = KStruct")
    case False
    with Iface assms show ?thesis by (auto simp: GetOrParse_not_struct)
  next
    case True
    then obtain n pk fs where u: "unwrap t = StructOf n pk fs" using kindOf_struct by blast
    show ?thesis
    proof (cases "cacheStore s (StructOf n pk fs)")
      case (Some q)
      with True u Iface assms show ?thesis by (simp add: GetOrParse_hit)
    next
      case None
      from assms Iface have c: "cacheStore s' = cacheStore s"
        by (auto simp: GetOrParse_miss[OF u None] split: sum.splits option.splits prod.splits)
      with None have None': "cacheStore s' (StructOf n pk fs) = None" by simp
      from assms Iface have "fst (GetOrParse deps s' dest) = Inl e"
        by (auto simp: GetOrParse_miss[OF u None] GetOrParse_miss[OF u None']
            split: sum.splits option.splits prod.splits)
      with c show ?thesis by simp
    qed
  qed
qed

lemma find_None_iff': "find P xs = None \<longleftrightarrow> (\<forall>x \<in> set xs. \<not> P x)"
  by (induction xs) auto

lemma GetOrParse_missing_id:
  assumes ty: "GetModelType dest = Inr (StructOf n pk fs)"
    and miss: "cacheStore s (StructOf n pk fs) = None"
    and tags: "\<forall>sf \<in> set fs. \<exists>t. tagsOf deps sf = Inr t \<and> (Skip t \<or> Name_tg t \<noteq> ''_id'')"
  shows "fst (GetOrParse deps s dest) = Inl ErrIdFieldDoesNotExists"
proof -
  from GetModelType_Inr[OF ty] obtain t v where d: "dest = Iface t v" "unwrap t = StructOf n pk fs"
    by blast
  from tags have "\<forall>sf \<in> set fs. \<exists>t. tagsOf deps sf = Inr t" by blast
  from extractFieldsLoop_total[OF this, of "[]" 0 "[]" "[]"] obtain F A where
    l: "extractFieldsLoop deps [] 0 fs [] [] = Inr (F, A)" by blast
  from extractFieldsLoop_shape[OF l] have FA: "A = F"
    and nf: "\<forall>f \<in> set F. \<exists>k t. k < length fs \<and> tagsOf deps (fs ! k) = Inr t \<and> \<not> Skip t \<and>
          newField (fs ! k) t [int k] = Inr f"
    by auto
  have noEnt: "\<forall>f \<in> set F. Entity f = None" and noId: "\<forall>f \<in> set F. \<not> Id_f f"
  proof -
    { fix f assume "f \<in> set F"
      with nf obtain k t where k: "k < length fs" "tagsOf deps (fs ! k) = Inr t" "\<not> Skip t"
        "newField (fs ! k) t [int k] = Inr f" by blast
      from k(1) tags k(2,3) have "Name_tg t \<noteq> ''_id''" by (metis nth_mem sum.inject(2))
      with k(4) have "Entity f = None \<and> \<not> Id_f f" by (auto simp: newField_eq) }
    then show "\<forall>f \<in> set F. Entity f = None" and "\<forall>f \<in> set F. \<not> Id_f f" by blast+
  qed
  have "extractIdField F = None"
    using extractIdField_no_Entity[OF noEnt] noId by (simp add: find_None_iff')
  with l FA d show ?thesis by (simp add: GetOrParse_miss[OF d(2) miss])
qed


lemmas resolve_evals = GetOrParse_def GetModelType_def newEntity_def newEntityByModelType_def
  extractFields_def newField_eq makeFieldsByNameAndByDBName_def mapRead_def reflect_ValueOf_def
  Type_rv_def specDeps_def parseTags_spec_def LowerFirst_spec_def TagGet_def emptyState_def
  zeroEntity_def deref_def Let_def

section \<open>Properties of resolution and of the cache\<close>

text \<open>
  C9. For every struct field that resolution processes, the Field's identity flag is true
  exactly when its resolved document key name is the string \<open>_id\<close>, whatever else the tag
  settings hold: \<open>newField\<close> returns a Field for any settings, with the key name of the
  settings and the flag set by that name alone, and so does every Field of the two lists
  that \<open>extractFields\<close> returns.
\<close>

theorem identity_flag_iff_key_is_id:
  "(\<exists>f. newField structField structTags inlineIndex = Inr f \<and>
        DBName f = Name_tg structTags \<and> Id_f f = (DBName f = ''_id'')) \<and>
   (extractFields deps modelType index = Inr (flds, allFields) \<longrightarrow>
      (\<forall>f \<in> set flds \<union> set allFields. Id_f f = (DBName f = ''_id'')))"
proof
  show "\<exists>f. newField structField structTags inlineIndex = Inr f \<and>
        DBName f = Name_tg structTags \<and> Id_f f = (DBName f = ''_id'')"
    by (simp add: newField_eq)
  show "extractFields deps modelType index = Inr (flds, allFields) \<longrightarrow>
      (\<forall>f \<in> set flds \<union> set allFields. Id_f f = (DBName f = ''_id''))"
  proof
    assume a: "extractFields deps modelType index = Inr (flds, allFields)"
    then obtain n pk fs where l: "extractFieldsLoop deps index 0 fs [] [] = Inr (flds, allFields)"
      by (cases modelType) (simp_all add: extractFields_def)
    from extractFieldsLoop_shape[OF l] have eq: "allFields = flds"
      and nf: "\<forall>f \<in> set flds. \<exists>k t. newField (fs ! k) t (index @ [int k]) = Inr f"
      by (simp, fastforce)
    show "\<forall>f \<in> set flds \<union> set allFields. Id_f f = (DBName f = ''_id'')"
    proof
      fix f assume "f \<in> set flds \<union> set allFields"
      with eq nf obtain k t where "newField (fs ! k) t (index @ [int k]) = Inr f" by auto
      then show "Id_f f = (DBName f = ''_id'')" by (auto simp: newField_eq)
    qed
  qed
qed

theorem identity_flag_iff_key_is_id_witness:
  "\<exists>flds. extractFields specDeps TestT [] = Inr (flds, flds) \<and>
     map DBName flds = [''_id'', ''name'', ''happy'', ''hello_world'', ''userPassword'', ''orderId''] \<and>
     map Id_f flds = [True, False, False, False, False, False] \<and>
     list_all (\<lambda>f. Id_f f = (DBName f = ''_id'')) flds"
proof -
  obtain flds where e: "extractFields specDeps TestT [] = Inr (flds, flds)"
    and d: "map DBName flds = [''_id'', ''name'', ''happy'', ''hello_world'', ''userPassword'', ''orderId'']"
    and i: "map Id_f flds = [True, False, False, False, False, False]"
    by (simp add: resolve_evals TestT_def ObjectID_def)
  from identity_flag_iff_key_is_id[of _ _ _ specDeps TestT "[]" flds flds] e
  have "\<forall>f \<in> set flds. Id_f f = (DBName f = ''_id'')" by simp
  with e d i show ?thesis by (auto simp: list_all_iff)
qed

text \<open>
  C4, at the failing input. The claim: every input that is not a record, a nil value
  included, makes the entry point return the unsupported-type error without a panic.
  \<open>GetOrParse\<close> on a nil \<open>dest\<close> panics: \<open>GetModelType\<close> takes the type of
  \<open>reflect.ValueOf(nil)\<close>, the zero Value, before \<open>newEntity\<close> and its test of nil are reached.
\<close>

theorem GetOrParse_nil_panics:
  "GetOrParse deps s NilIface = (Inl Panic, s) \<and>
   newEntity deps s NilIface = (Inl ErrUnsupportedDataType, s)"
  by (simp add: GetOrParse_nil newEntity_def)

text \<open>
  For an input that is not nil and whose type, with its slice, array and pointer layers
  taken off, is not a struct, \<open>GetOrParse\<close> does return the unsupported-type error and leaves
  the state as it is.
\<close>

lemma GetOrParse_non_record:
  "kindOf (unwrap t) \<noteq> KStruct \<Longrightarrow>
   GetOrParse deps s (Iface t v) = (Inl ErrUnsupportedDataType, s)"
  by (rule GetOrParse_not_struct)

text \<open>
  C2, at the failing input. The claim: the two maps send the name and the key of every
  direct field to its descriptor, and \<open>LookUpField\<close> on them returns the descriptor, never
  nil. For the record type \<open>Test\<close>, resolved from the empty cache, the key \<open>_id\<close> and the
  name \<open>Id\<close> of its first field are in the maps with the nil pointer, and \<open>LookUpField\<close>
  returns nil for both: \<open>makeFieldsByNameAndByDBName\<close> stores the \<open>v\<close> that its read of the
  missing key has just returned, not the field.
\<close>

theorem LookUpField_nil_for_resolved_field:
  "fst (GetOrParse specDeps emptyState (Iface (PtrTo TestT) (VPtr None))) = Inr (Some 0) \<and>
   map DBName (Fields (entities (snd (GetOrParse specDeps emptyState
      (Iface (PtrTo TestT) (VPtr None)))) ! 0))
     = [''_id'', ''name'', ''happy'', ''hello_world'', ''userPassword'', ''orderId''] \<and>
   FieldsByDBName (entities (snd (GetOrParse specDeps emptyState
      (Iface (PtrTo TestT) (VPtr None)))) ! 0) ''_id'' = Some None \<and>
   FieldsByName (entities (snd (GetOrParse specDeps emptyState
      (Iface (PtrTo TestT) (VPtr None)))) ! 0) ''Id'' = Some None \<and>
   LookUpField (entities (snd (GetOrParse specDeps emptyState
      (Iface (PtrTo TestT) (VPtr None)))) ! 0) ''_id'' = None \<and>
   LookUpField (entities (snd (GetOrParse specDeps emptyState
      (Iface (PtrTo TestT) (VPtr None)))) ! 0) ''Id'' = None"
  by (simp add: resolve_evals LookUpField_def TestT_def ObjectID_def)

text \<open>The same for every list of fields: the maps have the names and the keys of the
  fields as their keys (\<open>makeFieldsLoop_dom\<close>) and hold nil pointers only, and
  \<open>LookUpField\<close> on an Entity with these maps returns nil for every name.\<close>

lemma makeFieldsByNameAndByDBName_nil:
  "makeFieldsByNameAndByDBName flds = (byName, byDBName) \<Longrightarrow>
   (byName k = Some v \<longrightarrow> v = None) \<and> (byDBName k = Some v \<longrightarrow> v = None)"
  using makeFieldsLoop_nil[of flds Map.empty Map.empty byName byDBName]
  by (simp add: makeFieldsByNameAndByDBName_def)

lemma LookUpField_nil:
  assumes "makeFieldsByNameAndByDBName flds = (FieldsByName e, FieldsByDBName e)"
  shows "LookUpField e name = None"
  using makeFieldsByNameAndByDBName_nil[OF assms, of name]
  by (auto simp: LookUpField_def mapRead_def split: option.splits)

text \<open>
  C6, at the failing input. The claim: the identity field found during resolution is
  recorded on the Entity as its non-nil \<open>PrimaryField\<close>. For the record type \<open>Test\<close>,
  resolved from the empty cache, \<open>extractIdField\<close> finds the field \<open>Id\<close> among the fields of
  the Entity, and the Entity's \<open>PrimaryField\<close> is nil: \<open>newEntityByModelType\<close> tests
  \<open>idField\<close> for nil and assigns it to no member. \<open>PrimaryKeyDBName\<close> then returns its
  default.
\<close>

theorem PrimaryField_nil_after_resolution:
  "fst (GetOrParse specDeps emptyState (Iface (PtrTo TestT) (VPtr None))) = Inr (Some 0) \<and>
   map_option Name (extractIdField (AllFields (entities (snd (GetOrParse specDeps emptyState
      (Iface (PtrTo TestT) (VPtr None)))) ! 0))) = Some ''Id'' \<and>
   PrimaryField (entities (snd (GetOrParse specDeps emptyState
      (Iface (PtrTo TestT) (VPtr None)))) ! 0) = None \<and>
   PrimaryKeyDBName (entities (snd (GetOrParse specDeps emptyState
      (Iface (PtrTo TestT) (VPtr None)))) ! 0) = ''_id''"
  by (simp add: resolve_evals PrimaryKeyDBName_def TestT_def ObjectID_def)


text \<open>
  C1, at the failing input. The claim: for a record type with an embedded record field,
  \<open>AllFields\<close> holds the leaf fields of the embedded record with the root's own fields, and
  differs from \<open>Fields\<close>. The record type \<open>Outer\<close> embeds the record \<open>Inner\<close> (fields \<open>A\<close>, \<open>B\<close>)
  under an inline tag, between its own fields \<open>Id\<close> and \<open>C\<close>. Resolved from the empty cache,
  its Entity has the one entry \<open>Inner\<close> for the embedding in \<open>AllFields\<close>, no entry for \<open>A\<close> or
  \<open>B\<close>, and \<open>AllFields\<close> equal to \<open>Fields\<close>: \<open>extractFields\<close> computes a flattened list
  \<open>allFields\<close> beside \<open>fields\<close>, and \<open>newEntityByModelType\<close> assigns \<open>fields\<close> to both
  members.
\<close>

theorem embedded_fields_missing_from_AllFields:
  "fst (GetOrParse specDeps emptyState (Iface (PtrTo OuterT) (VPtr None))) = Inr (Some 0) \<and>
   map (Inline \<circ> StructTags) (Fields (entities (snd (GetOrParse specDeps emptyState
      (Iface (PtrTo OuterT) (VPtr None)))) ! 0)) = [False, True, False] \<and>
   map Name (AllFields (entities (snd (GetOrParse specDeps emptyState
      (Iface (PtrTo OuterT) (VPtr None)))) ! 0)) = [''Id'', ''Inner'', ''C''] \<and>
   AllFields (entities (snd (GetOrParse specDeps emptyState
      (Iface (PtrTo OuterT) (VPtr None)))) ! 0)
     = Fields (entities (snd (GetOrParse specDeps emptyState
      (Iface (PtrTo OuterT) (VPtr None)))) ! 0)"
  by (simp add: resolve_evals OuterT_def InnerT_def ObjectID_def)

text \<open>
  That the two members are equal follows from the assignments of \<open>newEntityByModelType\<close>
  alone, whatever the two lists are that \<open>extractFields\<close> returns.
\<close>

lemma AllFields_assigned_from_fields:
  assumes "newEntityByModelType deps s modelType index = (Inr (Some a), s')"
    and "cacheStore s (unwrap modelType) = None"
  shows "a = length (entities s) \<and>
         AllFields (entities s' ! a) = Fields (entities s' ! a)"
  using assms
  by (auto simp: newEntityByModelType_def Let_def
      split: if_splits sum.splits option.splits prod.splits)

text \<open>
  C5. A call of \<open>GetOrParse\<close> that fails, for whatever reason, leaves the cache as it was, and
  the same call on the state it leaves fails with the same error, so nothing of the failure
  is remembered. A record type that is not yet cached, whose tags all parse and none of
  whose fields that are not skipped resolves to the key \<open>_id\<close>, fails with the
  missing-identity error.
\<close>

theorem failed_resolution_not_cached:
  "(GetOrParse deps s dest = (Inl e, s') \<longrightarrow>
      cacheStore s' = cacheStore s \<and> fst (GetOrParse deps s' dest) = Inl e) \<and>
   (GetModelType dest = Inr (StructOf n pk fs) \<and> cacheStore s (StructOf n pk fs) = None \<and>
    (\<forall>sf \<in> set fs. \<exists>t. tagsOf deps sf = Inr t \<and> (Skip t \<or> Name_tg t \<noteq> ''_id'')) \<longrightarrow>
      fst (GetOrParse deps s dest) = Inl ErrIdFieldDoesNotExists)"
  using GetOrParse_error_cache[of deps s dest e s'] GetOrParse_missing_id[of dest n pk fs s deps]
  by blast

theorem failed_resolution_not_cached_witness:
  "fst (GetOrParse specDeps emptyState (Iface (PtrTo NoIdT) (VPtr None)))
     = Inl ErrIdFieldDoesNotExists \<and>
   cacheStore (snd (GetOrParse specDeps emptyState (Iface (PtrTo NoIdT) (VPtr None))))
     = cacheStore emptyState \<and>
   fst (GetOrParse specDeps (snd (GetOrParse specDeps emptyState (Iface (PtrTo NoIdT) (VPtr None))))
        (Iface (PtrTo NoIdT) (VPtr None)))
     = Inl ErrIdFieldDoesNotExists"
proof -
  let ?dest = "Iface (PtrTo NoIdT) (VPtr None)"
  let ?fs = "[MkStructField ''Name'' [] (Basic BString ''string'' []) [(''bson'', ''name'')] False]"
  let ?s' = "snd (GetOrParse specDeps emptyState ?dest)"
  note inst = failed_resolution_not_cached[of specDeps emptyState ?dest ErrIdFieldDoesNotExists ?s'
      "''NoId''" "''jmongo''" ?fs]
  have 1: "GetModelType ?dest = Inr (StructOf ''NoId'' ''jmongo'' ?fs)"
    by (simp add: GetModelType_def reflect_ValueOf_def Type_rv_def NoIdT_def)
  have 2: "cacheStore emptyState (StructOf ''NoId'' ''jmongo'' ?fs) = None"
    by (simp add: emptyState_def)
  have 3: "\<forall>sf \<in> set ?fs. \<exists>t. tagsOf specDeps sf = Inr t \<and> (Skip t \<or> Name_tg t \<noteq> ''_id'')"
    by (simp add: tagsOf_def specDeps_def parseTags_spec_def TagGet_def)
  from inst 1 2 3 have a: "fst (GetOrParse specDeps emptyState ?dest) = Inl ErrIdFieldDoesNotExists"
    by blast
  then have "GetOrParse specDeps emptyState ?dest = (Inl ErrIdFieldDoesNotExists, ?s')"
    by (simp add: prod_eq_iff)
  with inst have "cacheStore ?s' = cacheStore emptyState \<and>
      fst (GetOrParse specDeps ?s' ?dest) = Inl ErrIdFieldDoesNotExists"
    by blast
  with a show ?thesis by simp
qed



section \<open>Properties of the accessors\<close>

lemma Indirect_instanceValue:
  "Indirect h (instanceValue T a) = Inr (RV T (Loc a []) False False)"
  by (simp add: Indirect_def instanceValue_def Kind_rv_def Elem_rv_def load_def)

lemma Field_rv_Loc:
  "fieldAt T i = Some sf \<Longrightarrow>
   Field_rv (RV T (Loc a path) sro ero) (int i)
     = Inr (RV (Type_sf sf) (Loc a (path @ [i]))
             (sro \<or> (PkgPath_sf sf \<noteq> [] \<and> \<not> Anonymous_sf sf))
             (PkgPath_sf sf \<noteq> [] \<and> Anonymous_sf sf))"
  by (cases T) (auto simp: Field_rv_def Let_def split: if_splits)

lemma Field_rv_negative: "i < 0 \<Longrightarrow> Field_rv v i = Inl Panic"
  by (auto simp: Field_rv_def split: rvalue.splits gotype.splits)

text \<open>
  A path of one entry goes to the case \<open>len(index) == 1\<close>, which hands the entry to
  \<open>Value.Field\<close> as it is: with a negative entry both closures panic. The paths that
  \<open>extractFields\<close> builds end in the position of a field, which is not negative.
\<close>

lemma single_negative_entry_panics:
  "idx < 0 \<Longrightarrow>
   fst (setupValuerAndSetter [idx] ft) h (instanceValue T a) = Inl Panic \<and>
   snd (setupValuerAndSetter [idx] ft) h (instanceValue T a) = Inl Panic"
  by (simp add: setupValuerAndSetter_def Indirect_instanceValue Field_rv_negative)

text \<open>
  An exported field below an embedded struct of an unexported type can be read: the flag
  that the embedded field sets is dropped by the next \<open>Field\<close>. For a fresh \<open>Emb\<close>, the
  closure for the path \<open>[1, 0]\<close> reads the zero \<open>X\<close>, and the location it returns can be set.
\<close>

lemma exported_field_below_embedded_unexported:
  "fst (setupValuerAndSetter [1, 0] (Basic BInt ''int'' [])) [zero EmbT] (instanceValue EmbT 0)
     = Inr ((Iface (Basic BInt ''int'' []) (VInt 0), True), [zero EmbT]) \<and>
   snd (setupValuerAndSetter [1, 0] (Basic BInt ''int'' [])) [zero EmbT] (instanceValue EmbT 0)
     = Inr (RV (Basic BInt ''int'' []) (Loc 0 [1, 0]) False False, [zero EmbT]) \<and>
   Set_rv [zero EmbT] (RV (Basic BInt ''int'' []) (Loc 0 [1, 0]) False False) (VInt 5)
     = Inr [VStruct [VOther 0, VStruct [VInt 5]]]"
  by (simp add: setupValuerAndSetter_def Indirect_instanceValue EmbT_def ObjectID_def
      Field_rv_def Interface_rv_def IsZero_rv_def Set_rv_def load_def)

lemma hasTypes_length: "hasTypes fs vs \<Longrightarrow> length vs = length fs"
  by (induction fs arbitrary: vs) (auto split: list.splits)

lemma isZero_iff_zero:
  "hasType t v \<Longrightarrow> isZero v = (v = zero t)"
  "hasTypeField f v \<Longrightarrow> isZero v = (v = zeroField f)"
  "hasTypes fs vs \<Longrightarrow> list_all isZero vs = (vs = zeroFields fs)"
proof (induction t v and f v and fs vs rule: hasType_hasTypeField_hasTypes.induct)
qed (auto split: val.splits list.splits)

lemma hasType_zero:
  "hasType t (zero t)" "hasTypeField f (zeroField f)" "hasTypes fs (zeroFields fs)"
  by (induction t and f and fs rule: zero_zeroField_zeroFields.induct) auto

lemma accessors_single:
  "fieldAt T i = Some sf \<Longrightarrow>
   snd (setupValuerAndSetter [int i] ft) h (instanceValue T a)
     = Inr (RV (Type_sf sf) (Loc a [i])
             (PkgPath_sf sf \<noteq> [] \<and> \<not> Anonymous_sf sf)
             (PkgPath_sf sf \<noteq> [] \<and> Anonymous_sf sf), h)"
  by (simp add: setupValuerAndSetter_def Indirect_instanceValue Field_rv_Loc)

lemma reflectOf_allocates_only_in_general_case:
  assumes "snd (setupValuerAndSetter index ft) h0 v = Inr (r, h1)" and "h1 \<noteq> h0"
  shows "2 \<le> length index \<and> \<not> (length index = 2 \<and> index ! 0 \<ge> 0 \<and> kindOf ft \<noteq> KPtr)"
proof -
  have a: "length index \<noteq> 1"
    using assms by (auto simp: setupValuerAndSetter_def bindE_def split: if_splits sum.splits)
  have b: "\<not> (length index = 2 \<and> index ! 0 \<ge> 0 \<and> kindOf ft \<noteq> KPtr)"
    using assms by (auto simp: setupValuerAndSetter_def bindE_def split: if_splits sum.splits)
  have c: "length index \<noteq> 0"
    using assms by (auto simp: setupValuerAndSetter_def bindE_def split: if_splits sum.splits)
  from a b c show ?thesis by linarith
qed

text \<open>
  C10. For a top-level field declared with a pointer type, resolved by \<open>newField\<close> with its
  index path of length 1, \<open>ReflectValueOf\<close> on an instance whose field is nil returns the
  field's own slot, of the pointer type and still holding nil, and leaves memory as it is.
  Whenever a \<open>reflectOf\<close> closure of \<open>setupValuerAndSetter\<close> returns with memory changed,
  its index path has two entries or more and is not of the two-entry direct shape: only
  the general case allocates.
\<close>

theorem pointer_field_slot_not_allocated:
  assumes "fieldAt T i = Some structField"
    and "Type_sf structField = PtrTo E"
    and "newField structField structTags [int i] = Inr f"
    and "a < length h"
    and "get_at (h ! a) [i] = Some (VPtr None)"
  shows "ReflectValueOf f h (instanceValue T a)
           = Inr (RV (PtrTo E) (Loc a [i])
                   (PkgPath_sf structField \<noteq> [] \<and> \<not> Anonymous_sf structField)
                   (PkgPath_sf structField \<noteq> [] \<and> Anonymous_sf structField), h) \<and>
         load h (Loc a [i]) = Some (VPtr None) \<and>
         (\<forall>index ft h0 v r h1.
            snd (setupValuerAndSetter index ft) h0 v = Inr (r, h1) \<and> h1 \<noteq> h0 \<longrightarrow>
            2 \<le> length index \<and> \<not> (length index = 2 \<and> index ! 0 \<ge> 0 \<and> kindOf ft \<noteq> KPtr))"
proof -
  from assms(3) have "ReflectValueOf f = snd (setupValuerAndSetter [int i] (Type_sf structField))"
    by (auto simp: newField_eq)
  with accessors_single[OF assms(1), of "Type_sf structField" h a] assms(2)
  have "ReflectValueOf f h (instanceValue T a)
           = Inr (RV (PtrTo E) (Loc a [i])
                   (PkgPath_sf structField \<noteq> [] \<and> \<not> Anonymous_sf structField)
                   (PkgPath_sf structField \<noteq> [] \<and> Anonymous_sf structField), h)" by simp
  moreover have "load h (Loc a [i]) = Some (VPtr None)"
    using assms(4,5) by (simp add: load_def)
  ultimately show ?thesis using reflectOf_allocates_only_in_general_case by blast
qed

theorem pointer_field_slot_not_allocated_witness:
  "\<exists>f. newField (MkStructField ''Inner'' [] (PtrTo InnerT) [(''bson'', '',inline'')] True)
          \<lparr>Name_tg = ''inner'', Skip = False, Inline = True\<rparr> [1] = Inr f \<and>
       ReflectValueOf f [zero OuterPtrT] (instanceValue OuterPtrT 0)
         = Inr (RV (PtrTo InnerT) (Loc 0 [1]) False False, [zero OuterPtrT]) \<and>
       load [zero OuterPtrT] (Loc 0 [1]) = Some (VPtr None)"
proof -
  let ?sf = "MkStructField ''Inner'' [] (PtrTo InnerT) [(''bson'', '',inline'')] True"
  let ?tags = "\<lparr>Name_tg = ''inner'', Skip = False, Inline = True\<rparr>"
  obtain f where f: "newField ?sf ?tags [int 1] = Inr f" by (simp add: newField_eq)
  have 1: "fieldAt OuterPtrT 1 = Some ?sf" by (simp add: OuterPtrT_def)
  have 2: "Type_sf ?sf = PtrTo InnerT" by simp
  have 3: "(0::nat) < length [zero OuterPtrT]" by simp
  have 4: "get_at ([zero OuterPtrT] ! 0) [1] = Some (VPtr None)" by (simp add: OuterPtrT_def)
  from pointer_field_slot_not_allocated[OF 1 2 f 3 4] f show ?thesis
    by (intro exI[of _ f]) simp
qed

lemma resolved_field_accessors:
  assumes "extractFields deps T [] = Inr (flds, allFields)" and "f \<in> set flds"
  shows "\<exists>k sf. fieldAt T k = Some sf \<and> StructField f = sf \<and> FieldType f = Type_sf sf \<and>
     ValueOf f = fst (setupValuerAndSetter [int k] (Type_sf sf)) \<and>
     ReflectValueOf f = snd (setupValuerAndSetter [int k] (Type_sf sf))"
proof -
  from assms(1) obtain n pk fs where T: "T = StructOf n pk fs"
    and l: "extractFieldsLoop deps [] 0 fs [] [] = Inr (flds, allFields)"
    by (cases T) (simp_all add: extractFields_def)
  from extractFieldsLoop_shape[OF l] assms(2) obtain k t where
    k: "k < length fs" "newField (fs ! k) t [int k] = Inr f" by fastforce
  from k(2) have "StructField f = fs ! k \<and> FieldType f = Type_sf (fs ! k) \<and>
     ValueOf f = fst (setupValuerAndSetter [int k] (Type_sf (fs ! k))) \<and>
     ReflectValueOf f = snd (setupValuerAndSetter [int k] (Type_sf (fs ! k)))"
    by (auto simp: newField_eq)
  with T k(1) show ?thesis by (intro exI[of _ k] exI[of _ "fs ! k"]) simp
qed

text \<open>
  C8, as stated, fails. The claim: for every resolved Field and every fresh instance of the
  root type, a value written into the location that \<open>ReflectValueOf\<close> returns is read back
  by \<open>ValueOf\<close>. \<open>extractFields\<close> resolves a Field for every struct field, exported or not.
  For the record type \<open>Secret\<close> it returns Fields for \<open>Id\<close> and for the unexported \<open>secret\<close>;
  on a fresh instance, \<open>ReflectValueOf\<close> of the Field \<open>secret\<close> returns a read-only
  location that \<open>Set\<close> refuses with a panic, and \<open>ValueOf\<close> panics too, in
  \<open>fieldValue.Interface()\<close>.
\<close>

theorem unexported_field_no_round_trip:
  "\<not> isl (extractFields specDeps SecretT []) \<and>
   map Name (fst (projr (extractFields specDeps SecretT []))) = [''Id'', ''secret''] \<and>
   FieldType (fst (projr (extractFields specDeps SecretT [])) ! 1) = Basic BInt ''int'' [] \<and>
   ReflectValueOf (fst (projr (extractFields specDeps SecretT [])) ! 1) [zero SecretT]
       (instanceValue SecretT 0)
     = Inr (RV (Basic BInt ''int'' []) (Loc 0 [1]) True False, [zero SecretT]) \<and>
   Set_rv [zero SecretT] (RV (Basic BInt ''int'' []) (Loc 0 [1]) True False) (VInt 8)
     = Inl Panic \<and>
   ValueOf (fst (projr (extractFields specDeps SecretT [])) ! 1) [zero SecretT]
       (instanceValue SecretT 0)
     = Inl Panic"
  by (simp add: extractFields_def newField_eq specDeps_def parseTags_spec_def
      LowerFirst_spec_def TagGet_def Let_def SecretT_def ObjectID_def
      setupValuerAndSetter_def Indirect_instanceValue Field_rv_def Interface_rv_def
      Set_rv_def)

text \<open>
  C8, amended. For every Field that resolution returns for an exported struct field of a
  record type, and every instance of that type in memory (a freshly constructed one
  included), given through a pointer: \<open>ReflectValueOf\<close> returns the location of the field in
  the instance, which can be set, and leaves memory as it is; after \<open>Set\<close> has written a
  value of the field's declared type into that location, \<open>ValueOf\<close> returns the written
  value, with the zero flag true exactly when the written value is the zero value of the
  field's type.
\<close>

theorem write_then_read_round_trip:
  assumes "extractFields deps T [] = Inr (flds, allFields)"
    and "f \<in> set flds"
    and "PkgPath_sf (StructField f) = []"
    and "a < length h"
    and "hasType T (h ! a)"
    and "hasType (FieldType f) x"
  shows "\<exists>k h'. fieldAt T k = Some (StructField f) \<and>
     ReflectValueOf f h (instanceValue T a)
       = Inr (RV (FieldType f) (Loc a [k]) False False, h) \<and>
     Set_rv h (RV (FieldType f) (Loc a [k]) False False) x = Inr h' \<and>
     ValueOf f h' (instanceValue T a) = Inr ((Iface (FieldType f) x, isZero x), h') \<and>
     isZero x = (x = zero (FieldType f))"
proof -
  from resolved_field_accessors[OF assms(1,2)] obtain k sf where
    k: "fieldAt T k = Some sf" "StructField f = sf" "FieldType f = Type_sf sf"
    and vo: "ValueOf f = fst (setupValuerAndSetter [int k] (Type_sf sf))"
    and ro: "ReflectValueOf f = snd (setupValuerAndSetter [int k] (Type_sf sf))"
    by blast
  from assms(3) k(2) have ex: "PkgPath_sf sf = []" by simp
  let ?slot = "RV (Type_sf sf) (Loc a [k]) False False"
  from k(1) obtain n pk fs where T: "T = StructOf n pk fs" and kf: "k < length fs" "sf = fs ! k"
    by (cases T) (auto split: if_splits)
  from assms(5) T obtain vs where vs: "h ! a = VStruct vs" "hasTypes fs vs"
    by (auto split: val.splits)
  from hasTypes_length[OF vs(2)] kf have kv: "k < length vs" by simp
  let ?h' = "h[a := VStruct (vs[k := x])]"
  have r: "ReflectValueOf f h (instanceValue T a) = Inr (?slot, h)"
    using ro accessors_single[OF k(1)] ex by simp
  have st: "Set_rv h ?slot x = Inr ?h'"
    using assms(4,6) k(3) vs(1) kv by (simp add: Set_rv_def)
  have rd: "ValueOf f ?h' (instanceValue T a) = Inr ((Iface (FieldType f) x, isZero x), ?h')"
    using ex vo k(3) assms(4) kv
    by (simp add: setupValuerAndSetter_def Indirect_instanceValue Field_rv_Loc[OF k(1)]
        Interface_rv_def IsZero_rv_def load_def)
  have z: "isZero x = (x = zero (FieldType f))"
    using isZero_iff_zero(1)[OF assms(6)] .
  from r st rd z k show ?thesis
    by (intro exI[of _ k] exI[of _ ?h']) simp
qed

theorem write_then_read_round_trip_witness:
  "\<exists>flds h'. extractFields specDeps TestT [] = Inr (flds, flds) \<and>
     ReflectValueOf (flds ! 2) [zero TestT] (instanceValue TestT 0)
       = Inr (RV (Basic BInt ''int'' []) (Loc 0 [2]) False False, [zero TestT]) \<and>
     Set_rv [zero TestT] (RV (Basic BInt ''int'' []) (Loc 0 [2]) False False) (VInt 8) = Inr h' \<and>
     ValueOf (flds ! 2) h' (instanceValue TestT 0)
       = Inr ((Iface (Basic BInt ''int'' []) (VInt 8), False), h')"
proof -
  obtain flds where e: "extractFields specDeps TestT [] = Inr (flds, flds)"
    and n: "length flds = 6"
    and ft: "FieldType (flds ! 2) = Basic BInt ''int'' []"
    and sf: "StructField (flds ! 2)
       = MkStructField ''Age'' [] (Basic BInt ''int'' []) [(''bson'', ''happy'')] False"
    by (simp add: resolve_evals TestT_def ObjectID_def)
  have 2: "flds ! 2 \<in> set flds" using n by simp
  have 3: "PkgPath_sf (StructField (flds ! 2)) = []" using sf by simp
  have 4: "(0::nat) < length [zero TestT]" by simp
  have 5: "hasType TestT ([zero TestT] ! 0)" by (simp add: hasType_zero)
  have 6: "hasType (FieldType (flds ! 2)) (VInt 8)" by (simp add: ft)
  from write_then_read_round_trip[OF e 2 3 4 5 6] ft obtain k h' where
    k: "fieldAt TestT k = Some (StructField (flds ! 2))"
    and r: "ReflectValueOf (flds ! 2) [zero TestT] (instanceValue TestT 0)
       = Inr (RV (Basic BInt ''int'' []) (Loc 0 [k]) False False, [zero TestT])"
      "Set_rv [zero TestT] (RV (Basic BInt ''int'' []) (Loc 0 [k]) False False) (VInt 8) = Inr h'"
      "ValueOf (flds ! 2) h' (instanceValue TestT 0)
       = Inr ((Iface (Basic BInt ''int'' []) (VInt 8), False), h')"
    by auto
  from k sf have "k = 2"
    by (auto simp: TestT_def nth_Cons' split: if_splits)
  with e r show ?thesis by blast
qed

lemma linksKept_refl: "linksKept h h"
  by (simp add: linksKept_def)

lemma linksKept_trans: "linksKept h h1 \<Longrightarrow> linksKept h1 h2 \<Longrightarrow> linksKept h h2"
  unfolding linksKept_def by (meson le_trans less_le_trans)

lemma set_at_keeps_links:
  "set_at v p x = Some obj \<Longrightarrow> get_at v p = Some leaf \<Longrightarrow>
   leaf = VPtr None \<or> leaf = VOther c \<Longrightarrow>
   get_at v q = Some (VPtr (Some y)) \<Longrightarrow> get_at obj q = Some (VPtr (Some y))"
proof (induction p arbitrary: v q obj)
  case Nil
  then show ?case by (cases q) auto
next
  case (Cons i p)
  from Cons.prems(1) obtain vs w where v: "v = VStruct vs" "i < length vs"
    "set_at (vs ! i) p x = Some w" "obj = VStruct (vs[i := w])"
    by (cases v) (auto split: if_splits option.splits)
  from Cons.prems(4) v obtain i' q' where q: "q = i' # q'" "i' < length vs"
    "get_at (vs ! i') q' = Some (VPtr (Some y))"
    by (cases q) (auto split: if_splits)
  show ?case
  proof (cases "i' = i")
    case True
    from Cons.prems(2) v have "get_at (vs ! i) p = Some leaf" by simp
    from Cons.IH[OF v(3) this Cons.prems(3)] q(3) True
    have "get_at w q' = Some (VPtr (Some y))" by simp
    with v q True show ?thesis by simp
  next
    case False
    with v q show ?thesis by simp
  qed
qed

lemma set_at_get_at:
  "get_at v p = Some w \<Longrightarrow> \<exists>obj. set_at v p x = Some obj \<and> get_at obj p = Some x"
proof (induction p arbitrary: v)
  case Nil
  then show ?case by simp
next
  case (Cons i p)
  from Cons.prems obtain vs where v: "v = VStruct vs" "i < length vs" "get_at (vs ! i) p = Some w"
    by (cases v) (auto split: if_splits)
  from Cons.IH[OF v(3)] obtain o' where "set_at (vs ! i) p x = Some o'" "get_at o' p = Some x"
    by blast
  with v show ?case by simp
qed

lemma IsNil_rv_True:
  "IsNil_rv h v = Inr True \<Longrightarrow>
   \<exists>t pl sro ero leaf. v = RV t pl sro ero \<and> load h pl = Some leaf \<and> (leaf = VPtr None \<or> leaf = VOther 0)"
  by (cases v) (auto simp: IsNil_rv_def split: if_splits option.splits val.splits)

lemma Set_rv_new_keeps:
  assumes nil: "IsNil_rv h v = Inr True"
    and set: "Set_rv (h @ [z]) v (VPtr (Some (length h))) = Inr h2"
  shows "linksKept h h2"
proof -
  from IsNil_rv_True[OF nil] obtain t pl sro ero leaf where
    v: "v = RV t pl sro ero" "load h pl = Some leaf" "leaf = VPtr None \<or> leaf = VOther 0"
    by blast
  from set v(1) obtain a path obj where pl: "pl = Loc a path" and a: "a < length (h @ [z])"
    and s: "set_at ((h @ [z]) ! a) path (VPtr (Some (length h))) = Some obj"
    and h2: "h2 = (h @ [z])[a := obj]"
    by (cases pl) (auto simp: Set_rv_def split: if_splits option.splits)
  from v(2) pl have al: "a < length h" and g: "get_at (h ! a) path = Some leaf"
    by (auto simp: load_def split: if_splits)
  from s al have s': "set_at (h ! a) path (VPtr (Some (length h))) = Some obj"
    by (simp add: nth_append)
  show ?thesis
    unfolding linksKept_def
  proof (intro conjI allI impI)
    show "length h \<le> length h2" using h2 by simp
  next
    fix c q y assume c: "c < length h \<and> get_at (h ! c) q = Some (VPtr (Some y))"
    show "get_at (h2 ! c) q = Some (VPtr (Some y))"
    proof (cases "c = a")
      case True
      with set_at_keeps_links[OF s' g v(3)] c h2 al show ?thesis by simp
    next
      case False
      with c h2 show ?thesis by (simp add: nth_append)
    qed
  qed
qed

lemma reflectOfLoop_keeps:
  "reflectOfLoop n h v k rest = Inr (r, h') \<Longrightarrow> linksKept h h'"
proof (induction rest arbitrary: h v k)
  case Nil
  then show ?case by (simp add: linksKept_refl)
next
  case (Cons fieldIdx rest)
  from Cons.prems obtain v1 where
    f: "(if fieldIdx \<ge> 0 then Field_rv v fieldIdx else Field_rv v (- fieldIdx - 1)) = Inr v1"
    by (auto split: sum.splits)
  show ?case
  proof (cases "Kind_rv v1 = KPtr")
    case False
    with Cons.prems f have "reflectOfLoop n h v1 (Suc k) rest = Inr (r, h')"
      by (auto split: sum.splits)
    from Cons.IH[OF this] show ?thesis .
  next
    case True
    with Cons.prems f obtain et where et: "bindE (Type_rv v1) Elem_ty = Inr et"
      by (auto split: sum.splits)
    with Cons.prems f True obtain h2 where
      st: "(if kindOf et = KStruct then
              bindE (IsNil_rv h v1) (\<lambda>isnil.
                if isnil then (let (p, h1) = reflect_New h et in Set_rv h1 v1 p) else Inr h)
            else Inr h) = Inr h2"
      by (auto split: sum.splits)
    have k1: "linksKept h h2"
    proof (cases "kindOf et = KStruct \<and> IsNil_rv h v1 = Inr True")
      case True
      with st have "Set_rv (h @ [zero et]) v1 (VPtr (Some (length h))) = Inr h2"
        by (simp add: reflect_New_def)
      from Set_rv_new_keeps[OF _ this] True show ?thesis by simp
    next
      case False
      with st have "h2 = h" by (auto simp: bindE_def split: if_splits sum.splits)
      then show ?thesis by (simp add: linksKept_refl)
    qed
    from Cons.prems f True et st obtain v2 where
      "reflectOfLoop n h2 v2 (Suc k) rest = Inr (r, h')"
      by (auto split: sum.splits if_splits)
    from Cons.IH[OF this] k1 show ?thesis by (rule linksKept_trans[rotated])
  qed
qed




lemma Elem_rv_RV:
  "Elem_rv h (RV (PtrTo E) pl sro ero) = Inr (RV E' pl' sro' ero') \<Longrightarrow>
   \<exists>b. load h pl = Some (VPtr (Some b)) \<and> E' = E \<and> pl' = Loc b [] \<and> sro' = sro \<and> ero' = ero"
  by (auto simp: Elem_rv_def split: option.splits val.splits)

lemma valueOfLoop_walk:
  "walk h v pre = Some v' \<Longrightarrow> valueOfLoop h v (pre @ rest) = valueOfLoop h v' rest"
proof (induction pre arbitrary: v)
  case Nil
  then show ?case by simp
next
  case (Cons e es)
  from Cons.prems obtain v1 where f: "Field_rv v (if e \<ge> 0 then e else - e - 1) = Inr v1"
    by (auto split: sum.splits)
  show ?case
  proof (cases "e \<ge> 0")
    case True
    with Cons.prems f have "walk h v1 es = Some v'" by (auto split: if_splits)
    from Cons.IH[OF this] True f show ?thesis by simp
  next
    case False
    with Cons.prems f obtain E pl sro ero E' pl' sro' ero' where
      v1: "v1 = RV (PtrTo E) pl sro ero" "kindOf E = KStruct"
      and el: "Elem_rv h v1 = Inr (RV E' pl' sro' ero')"
      and w: "walk h (RV E' pl' sro' ero') es = Some v'"
      by (auto split: rvalue.splits gotype.splits if_splits sum.splits)
    from Elem_rv_RV[OF el[unfolded v1(1)]] obtain b where "load h pl = Some (VPtr (Some b))"
      by blast
    then have "IsNil_rv h v1 = Inr False" using v1(1) by (simp add: IsNil_rv_def)
    with Cons.IH[OF w] False f v1 el show ?thesis by (simp add: Type_rv_def)
  qed
qed

lemma reflectOfLoop_walk:
  "walk h v pre = Some v' \<Longrightarrow> int (k + length pre) \<le> int n - 1 \<Longrightarrow>
   reflectOfLoop n h v k (pre @ rest) = reflectOfLoop n h v' (k + length pre) rest"
proof (induction pre arbitrary: v k)
  case Nil
  then show ?case by simp
next
  case (Cons e es)
  from Cons.prems(1) obtain v1 where f: "Field_rv v (if e \<ge> 0 then e else - e - 1) = Inr v1"
    by (auto split: sum.splits)
  from Cons.prems(2) have k: "int k < int n - 1" and k': "int (Suc k + length es) \<le> int n - 1"
    by simp_all
  show ?case
  proof (cases "e \<ge> 0")
    case True
    with Cons.prems f have s: "Kind_rv v1 = KStruct" and w: "walk h v1 es = Some v'"
      by (auto split: if_splits)
    from Cons.IH[OF w k'] True f s show ?thesis by simp
  next
    case False
    with Cons.prems f obtain E pl sro ero E' pl' sro' ero' where
      v1: "v1 = RV (PtrTo E) pl sro ero" "kindOf E = KStruct"
      and el: "Elem_rv h v1 = Inr (RV E' pl' sro' ero')"
      and w: "walk h (RV E' pl' sro' ero') es = Some v'"
      by (auto split: rvalue.splits gotype.splits if_splits sum.splits)
    from Elem_rv_RV[OF el[unfolded v1(1)]] obtain b where "load h pl = Some (VPtr (Some b))"
      by blast
    then have "IsNil_rv h v1 = Inr False" using v1(1) by (simp add: IsNil_rv_def)
    with Cons.IH[OF w k'] False f v1 el k show ?thesis
      by (simp add: Type_rv_def Kind_rv_def)
  qed
qed

lemma walk_linksKept:
  "walk h v pre = Some v' \<Longrightarrow> linksKept h h2 \<Longrightarrow> walk h2 v pre = Some v'"
proof (induction pre arbitrary: v)
  case Nil
  then show ?case by simp
next
  case (Cons e es)
  from Cons.prems(1) obtain v1 where f: "Field_rv v (if e \<ge> 0 then e else - e - 1) = Inr v1"
    by (auto split: sum.splits)
  show ?case
  proof (cases "e \<ge> 0")
    case True
    with Cons.prems f have s: "Kind_rv v1 = KStruct" and w: "walk h v1 es = Some v'"
      by (auto split: if_splits)
    from Cons.IH[OF w Cons.prems(2)] True f s show ?thesis by simp
  next
    case False
    with Cons.prems f obtain E pl sro ero E' pl' sro' ero' where
      v1: "v1 = RV (PtrTo E) pl sro ero" "kindOf E = KStruct"
      and el: "Elem_rv h v1 = Inr (RV E' pl' sro' ero')"
      and w: "walk h (RV E' pl' sro' ero') es = Some v'"
      by (auto split: rvalue.splits gotype.splits if_splits sum.splits)
    from Elem_rv_RV[OF el[unfolded v1(1)]] obtain b where
      b: "load h pl = Some (VPtr (Some b))" "E' = E" "pl' = Loc b []" "sro' = sro" "ero' = ero"
      by blast
    have "load h2 pl = Some (VPtr (Some b))"
    proof (cases pl)
      case (Imm x)
      with b(1) show ?thesis by (simp add: load_def)
    next
      case (Loc c q)
      with b(1) have "c < length h" "get_at (h ! c) q = Some (VPtr (Some b))"
        by (auto simp: load_def split: if_splits)
      with Cons.prems(2) have "c < length h2" "get_at (h2 ! c) q = Some (VPtr (Some b))"
        unfolding linksKept_def by (auto intro: less_le_trans)
      with Loc show ?thesis by (simp add: load_def)
    qed
    then have "Elem_rv h2 v1 = Inr (RV E' pl' sro' ero')" using v1(1) b by (simp add: Elem_rv_def)
    with Cons.IH[OF w Cons.prems(2)] False f v1 show ?thesis by simp
  qed
qed

text \<open>The Value of the field at position \<open>-idx-1\<close> of a struct Value, for a negative \<open>idx\<close>.\<close>

lemma Field_rv_link:
  assumes "idx < 0" and "fieldAt S (nat (- idx - 1)) = Some lf"
  shows "Field_rv (RV S (Loc a path) sro ero) (- idx - 1)
     = Inr (RV (Type_sf lf) (Loc a (path @ [nat (- idx - 1)]))
             (sro \<or> (PkgPath_sf lf \<noteq> [] \<and> \<not> Anonymous_sf lf))
             (PkgPath_sf lf \<noteq> [] \<and> Anonymous_sf lf))"
proof -
  from assms(1) have "- idx - 1 = int (nat (- idx - 1))" by simp
  with Field_rv_Loc[OF assms(2), of a path sro ero] show ?thesis by simp
qed

lemma valueOfLoop_nil_link:
  assumes "idx < 0" and "fieldAt S (nat (- idx - 1)) = Some lf" and "Type_sf lf = PtrTo E"
    and "kindOf E = KStruct" and "load h (Loc a (path @ [nat (- idx - 1)])) = Some (VPtr None)"
  shows "valueOfLoop h (RV S (Loc a path) sro ero) (idx # post) = Inr ((NilIface, True), h)"
  using Field_rv_link[OF assms(1,2), of a path sro ero] assms(1,3,4,5)
  by (simp add: Type_rv_def IsNil_rv_def)

lemma valueOfLoop_link:
  assumes "idx < 0" and "fieldAt S (nat (- idx - 1)) = Some lf" and "Type_sf lf = PtrTo E"
    and "kindOf E = KStruct"
    and "load h (Loc a (path @ [nat (- idx - 1)])) = Some (VPtr (Some b))"
  shows "valueOfLoop h (RV S (Loc a path) sro ero) (idx # post)
     = valueOfLoop h (RV E (Loc b [])
         (sro \<or> (PkgPath_sf lf \<noteq> [] \<and> \<not> Anonymous_sf lf))
         (PkgPath_sf lf \<noteq> [] \<and> Anonymous_sf lf)) post"
  using Field_rv_link[OF assms(1,2), of a path sro ero] assms(1,3,4,5)
  by (simp add: Type_rv_def IsNil_rv_def Elem_rv_def)

text \<open>
  The step of the \<open>reflectOf\<close> loop at a nil link: a panic when the link is read-only, else
  the new struct is allocated and linked, and the loop goes on inside it, or with the link
  itself when the entry is the last.
\<close>

lemma reflectOfLoop_nil_link:
  assumes "idx < 0" and "fieldAt S (nat (- idx - 1)) = Some lf" and "Type_sf lf = PtrTo E"
    and "kindOf E = KStruct" and "a < length h"
    and "get_at (h ! a) (path @ [nat (- idx - 1)]) = Some (VPtr None)"
    and "set_at (h ! a) (path @ [nat (- idx - 1)]) (VPtr (Some (length h))) = Some obj"
    and "get_at obj (path @ [nat (- idx - 1)]) = Some (VPtr (Some (length h)))"
  shows "reflectOfLoop n h (RV S (Loc a path) sro ero) k (idx # post)
     = (if sro \<or> PkgPath_sf lf \<noteq> [] then Inl Panic
        else if int k < int n - 1 then
          reflectOfLoop n ((h @ [zero E])[a := obj]) (RV E (Loc (length h) []) False False)
            (Suc k) post
        else
          reflectOfLoop n ((h @ [zero E])[a := obj])
            (RV (PtrTo E) (Loc a (path @ [nat (- idx - 1)])) False False) (Suc k) post)"
proof -
  define b1 where "b1 = (sro \<or> (PkgPath_sf lf \<noteq> [] \<and> \<not> Anonymous_sf lf))"
  define b2 where "b2 = (PkgPath_sf lf \<noteq> [] \<and> Anonymous_sf lf)"
  have ro: "(b1 \<or> b2) = (sro \<or> PkgPath_sf lf \<noteq> [])" by (auto simp: b1_def b2_def)
  let ?v1 = "RV (PtrTo E) (Loc a (path @ [nat (- idx - 1)])) b1 b2"
  have fld: "Field_rv (RV S (Loc a path) sro ero) (- idx - 1) = Inr ?v1"
    using Field_rv_link[OF assms(1,2), of a path sro ero] assms(3) by (simp add: b1_def b2_def)
  have nil: "IsNil_rv h ?v1 = Inr True"
    using assms(5,6) by (simp add: IsNil_rv_def load_def)
  have set: "Set_rv (h @ [zero E]) ?v1 (VPtr (Some (length h)))
      = (if b1 \<or> b2 then Inl Panic else Inr ((h @ [zero E])[a := obj]))"
    using assms(5,7) by (simp add: Set_rv_def nth_append)
  have el: "Elem_rv ((h @ [zero E])[a := obj]) ?v1 = Inr (RV E (Loc (length h) []) b1 b2)"
    using assms(5,8) by (simp add: Elem_rv_def load_def)
  have "reflectOfLoop n h (RV S (Loc a path) sro ero) k (idx # post)
     = (if b1 \<or> b2 then Inl Panic
        else if int k < int n - 1 then
          reflectOfLoop n ((h @ [zero E])[a := obj]) (RV E (Loc (length h) []) b1 b2) (Suc k) post
        else reflectOfLoop n ((h @ [zero E])[a := obj]) ?v1 (Suc k) post)"
  proof (cases "b1 \<or> b2")
    case True
    with assms(1,4) fld nil set show ?thesis
      by (simp add: Kind_rv_def Type_rv_def reflect_New_def)
  next
    case False
    with assms(1,4) fld nil set el show ?thesis
      by (simp add: Kind_rv_def Type_rv_def reflect_New_def)
  qed
  then show ?thesis unfolding ro[symmetric] by (cases b1; cases b2) simp_all
qed

lemma zeroFields_nth:
  "q < length fs \<Longrightarrow> length (zeroFields fs) = length fs \<and> zeroFields fs ! q = zero (Type_sf (fs ! q))"
proof (induction fs arbitrary: q)
  case Nil
  then show ?case by simp
next
  case (Cons f fs)
  have l: "length (zeroFields fs) = length fs" for fs
    by (induction fs) simp_all
  show ?case
  proof (cases q)
    case 0
    then show ?thesis by (cases f) (simp add: l)
  next
    case (Suc r)
    with Cons show ?thesis by (simp add: l)
  qed
qed


lemma get_at_zero:
  "fieldAt E q = Some sf \<Longrightarrow> get_at (zero E) [q] = Some (zero (Type_sf sf))"
  by (cases E) (auto simp: zeroFields_nth split: if_splits)



lemma linksKept_new_link:
  assumes "a < length h" and "get_at (h ! a) p = Some (VPtr None)"
    and "set_at (h ! a) p x = Some obj"
  shows "linksKept h ((h @ [z])[a := obj])"
  unfolding linksKept_def
proof (intro conjI allI impI)
  show "length h \<le> length ((h @ [z])[a := obj])" by simp
next
  fix c q y assume c: "c < length h \<and> get_at (h ! c) q = Some (VPtr (Some y))"
  show "get_at ((h @ [z])[a := obj] ! c) q = Some (VPtr (Some y))"
  proof (cases "c = a")
    case True
    with set_at_keeps_links[OF assms(3,2), of 0 q y] c assms(1) show ?thesis by simp
  next
    case False
    with c show ?thesis by (simp add: nth_append)
  qed
qed


lemma general_case_dispatch:
  assumes "index = pre @ idx # post" and "(idx::int) < 0" and "post \<noteq> [] \<or> 2 \<le> length pre"
  shows "length index \<noteq> 1 \<and> \<not> (length index = 2 \<and> index ! 0 \<ge> 0)"
proof (cases pre)
  case Nil
  with assms show ?thesis by (cases post) auto
next
  case (Cons i pre')
  with assms show ?thesis by (cases post; cases pre') auto
qed

lemma accessors_general:
  assumes "index = pre @ idx # post" and "idx < 0" and "post \<noteq> [] \<or> 2 \<le> length pre"
  shows "fst (setupValuerAndSetter index ft) h (instanceValue T a)
           = valueOfLoop h (RV T (Loc a []) False False) index"
    and "snd (setupValuerAndSetter index ft) h (instanceValue T a)
           = reflectOfLoop (length index) h (RV T (Loc a []) False False) 0 index"
proof -
  from general_case_dispatch[OF assms] have d: "length index \<noteq> 1"
    "\<not> (length index = 2 \<and> index ! 0 \<ge> 0)"
    "\<not> (length index = 2 \<and> index ! 0 \<ge> 0 \<and> kindOf ft \<noteq> KPtr)" by blast+
  show "fst (setupValuerAndSetter index ft) h (instanceValue T a)
           = valueOfLoop h (RV T (Loc a []) False False) index"
    unfolding setupValuerAndSetter_def Let_def fst_conv if_not_P[OF d(1)] if_not_P[OF d(2)]
    by (simp add: Indirect_instanceValue)
  show "snd (setupValuerAndSetter index ft) h (instanceValue T a)
           = reflectOfLoop (length index) h (RV T (Loc a []) False False) 0 index"
    unfolding setupValuerAndSetter_def Let_def snd_conv if_not_P[OF d(1)] if_not_P[OF d(3)]
    by (simp add: Indirect_instanceValue)
qed

lemma reflectOf_at_nil_link:
  assumes ix: "index = pre @ idx # post" "idx < 0" "post \<noteq> [] \<or> 2 \<le> length pre"
    and wk: "walk h (RV T (Loc a []) False False) pre = Some (RV S (Loc a' path) sro ero)"
    and ty: "fieldAt S (nat (- idx - 1)) = Some lf" "Type_sf lf = PtrTo E" "kindOf E = KStruct"
    and inst: "a' < length h" "get_at (h ! a') (path @ [nat (- idx - 1)]) = Some (VPtr None)"
  shows "\<exists>obj. set_at (h ! a') (path @ [nat (- idx - 1)]) (VPtr (Some (length h))) = Some obj \<and>
      get_at obj (path @ [nat (- idx - 1)]) = Some (VPtr (Some (length h))) \<and>
      snd (setupValuerAndSetter index ft) h (instanceValue T a)
        = (if sro \<or> PkgPath_sf lf \<noteq> [] then Inl Panic
           else if post = [] then
             Inr (RV (PtrTo E) (Loc a' (path @ [nat (- idx - 1)])) False False,
                  (h @ [zero E])[a' := obj])
           else reflectOfLoop (length index) ((h @ [zero E])[a' := obj])
                  (RV E (Loc (length h) []) False False) (Suc (length pre)) post)"
proof -
  from set_at_get_at[OF inst(2), of "VPtr (Some (length h))"] obtain obj where
    obj: "set_at (h ! a') (path @ [nat (- idx - 1)]) (VPtr (Some (length h))) = Some obj"
      "get_at obj (path @ [nat (- idx - 1)]) = Some (VPtr (Some (length h)))" by blast
  have k: "(int (length pre) < int (length index) - 1) = (post \<noteq> [])"
    using ix(1) by (cases post) auto
  have k0: "int (0 + length pre) \<le> int (length index) - 1" using ix(1) by simp
  have "snd (setupValuerAndSetter index ft) h (instanceValue T a)
      = reflectOfLoop (length index) h (RV S (Loc a' path) sro ero) (length pre) (idx # post)"
    using accessors_general(2)[OF ix] reflectOfLoop_walk[OF wk k0, of "idx # post"] ix(1)
    by simp
  also have "\<dots> = (if sro \<or> PkgPath_sf lf \<noteq> [] then Inl Panic
        else if post = [] then
             Inr (RV (PtrTo E) (Loc a' (path @ [nat (- idx - 1)])) False False,
                  (h @ [zero E])[a' := obj])
        else reflectOfLoop (length index) ((h @ [zero E])[a' := obj])
               (RV E (Loc (length h) []) False False) (Suc (length pre)) post)"
    using reflectOfLoop_nil_link[OF ix(2) ty inst(1,2) obj, of "length index" sro ero "length pre" post] k
    by (cases "post = []") simp_all
  finally show ?thesis using obj by (intro exI[of _ obj]) simp
qed

text \<open>
  C7, as stated, fails, in two ways. The claim: for every index path with a negative entry
  and every instance in which that pointer link is nil, \<open>ValueOf\<close> reports the zero value
  and \<open>ReflectValueOf\<close> allocates a new target and links it in place.

  \<^item> In the record type \<open>HiddenPtr\<close> the pointer \<open>inner\<close> is an unexported field. For a fresh
    instance (the pointer is nil) and the path \<open>[-2, 1]\<close> to the field \<open>B\<close> behind it,
    \<open>ReflectValueOf\<close> panics: \<open>v.Set\<close> refuses a Value reached through an unexported field.

  \<^item> In the record type \<open>Wrap\<close> the field \<open>Mid\<close> is a struct whose field \<open>P\<close> is a pointer to a
    struct. For a fresh instance (the pointer is nil) and the path \<open>[1, -1]\<close>, \<open>ValueOf\<close>
    panics: a path of two entries whose first is not negative goes to the two-entry
    case, which hands the negative entry to \<open>Value.Field\<close>.
\<close>

theorem nil_pointer_link_counterexample:
  "get_at ([zero HiddenPtrT] ! 0) [1] = Some (VPtr None) \<and>
   snd (setupValuerAndSetter [- 2, 1] (Basic BInt ''int'' [])) [zero HiddenPtrT]
       (instanceValue HiddenPtrT 0)
     = Inl Panic \<and>
   get_at ([zero WrapT] ! 0) [1, 0] = Some (VPtr None) \<and>
   fst (setupValuerAndSetter [1, - 1] (PtrTo InnerT)) [zero WrapT] (instanceValue WrapT 0)
     = Inl Panic"
  by (simp add: setupValuerAndSetter_def Indirect_instanceValue HiddenPtrT_def WrapT_def
      MidT_def InnerT_def ObjectID_def Field_rv_def Kind_rv_def Type_rv_def IsNil_rv_def
      Set_rv_def reflect_New_def load_def)

text \<open>
  C7, amended. Take an index path with a negative entry \<open>idx\<close> that further entries follow or
  that at least two entries precede (the paths that the general case handles), and an
  instance in which the entries before \<open>idx\<close> lead, through embedded structs and pointers
  that are not nil, to a struct \<open>S\<close> at a place \<open>(a', path)\<close> of memory, whose field \<open>lf\<close> at
  position \<open>-idx-1\<close> is a pointer to a struct \<open>E\<close> and holds nil. The link is read-only for
  \<open>reflect\<close> when \<open>lf\<close> is unexported or the struct \<open>S\<close> carries the sticky flag \<open>sro\<close> of an
  unexported field above it. Then

  \<^item> \<open>ValueOf\<close> returns the nil value with the zero flag set and leaves memory as it is;

  \<^item> \<open>ReflectValueOf\<close> panics when the link is read-only;

  \<^item> when the link is not read-only, \<open>ReflectValueOf\<close> allocates a zero \<open>E\<close> at a new address
    and stores the pointer to it in the link; it then returns the link when \<open>idx\<close> is the
    last entry, and else goes on with the rest of the path inside the new struct;

  \<^item> whenever \<open>ReflectValueOf\<close> returns, memory has grown and the link holds the pointer to
    the new struct;

  \<^item> when the link is not read-only and the rest of the path is one entry for a field of
    \<open>E\<close> that is not a pointer, \<open>ReflectValueOf\<close> does return, with the location of that
    field in the new struct, and a \<open>ValueOf\<close> after it reads the field's zero value there.
\<close>

theorem nil_pointer_link_read_and_bridged:
  assumes "index = pre @ idx # post"
    and "idx < 0"
    and "post \<noteq> [] \<or> 2 \<le> length pre"
    and "walk h (RV T (Loc a []) False False) pre = Some (RV S (Loc a' path) sro ero)"
    and "fieldAt S (nat (- idx - 1)) = Some lf"
    and "Type_sf lf = PtrTo E"
    and "kindOf E = KStruct"
    and "a' < length h"
    and "get_at (h ! a') (path @ [nat (- idx - 1)]) = Some (VPtr None)"
  shows "fst (setupValuerAndSetter index ft) h (instanceValue T a) = Inr ((NilIface, True), h) \<and>
    (sro \<or> PkgPath_sf lf \<noteq> [] \<longrightarrow>
       snd (setupValuerAndSetter index ft) h (instanceValue T a) = Inl Panic) \<and>
    (\<not> sro \<and> PkgPath_sf lf = [] \<longrightarrow>
       (\<exists>obj. set_at (h ! a') (path @ [nat (- idx - 1)]) (VPtr (Some (length h))) = Some obj \<and>
          snd (setupValuerAndSetter index ft) h (instanceValue T a)
            = (if post = [] then
                 Inr (RV (PtrTo E) (Loc a' (path @ [nat (- idx - 1)])) False False,
                      (h @ [zero E])[a' := obj])
               else reflectOfLoop (length index) ((h @ [zero E])[a' := obj])
                      (RV E (Loc (length h) []) False False) (Suc (length pre)) post))) \<and>
    (\<forall>slot h'. snd (setupValuerAndSetter index ft) h (instanceValue T a) = Inr (slot, h') \<longrightarrow>
       length h < length h' \<and>
       get_at (h' ! a') (path @ [nat (- idx - 1)]) = Some (VPtr (Some (length h)))) \<and>
    (\<forall>q sf. post = [int q] \<and> fieldAt E q = Some sf \<and> kindOf (Type_sf sf) \<noteq> KPtr \<and>
         \<not> sro \<and> PkgPath_sf lf = [] \<longrightarrow>
       (\<exists>h'. snd (setupValuerAndSetter index ft) h (instanceValue T a)
                = Inr (RV (Type_sf sf) (Loc (length h) [q])
                        (PkgPath_sf sf \<noteq> [] \<and> \<not> Anonymous_sf sf)
                        (PkgPath_sf sf \<noteq> [] \<and> Anonymous_sf sf), h') \<and>
             h' ! length h = zero E \<and>
             (PkgPath_sf sf = [] \<longrightarrow>
                fst (setupValuerAndSetter index ft) h' (instanceValue T a)
                  = Inr ((Iface (Type_sf sf) (zero (Type_sf sf)), True), h'))))"
proof -
  let ?j = "nat (- idx - 1)"
  let ?inst = "instanceValue T a"
  note ix = assms(1,2,3)
  have ld: "load h (Loc a' (path @ [?j])) = Some (VPtr None)"
    using assms(8,9) by (simp add: load_def)
  have rd: "fst (setupValuerAndSetter index ft) h ?inst = Inr ((NilIface, True), h)"
    using accessors_general(1)[OF ix, of ft h T a]
      valueOfLoop_walk[OF assms(4), of "idx # post"]
      valueOfLoop_nil_link[OF assms(2,5,6,7) ld, of sro ero post] assms(1)
    by simp
  from reflectOf_at_nil_link[OF ix assms(4,5,6,7,8,9), of ft] obtain obj where
    obj: "set_at (h ! a') (path @ [?j]) (VPtr (Some (length h))) = Some obj"
      "get_at obj (path @ [?j]) = Some (VPtr (Some (length h)))"
    and wr: "snd (setupValuerAndSetter index ft) h ?inst
        = (if sro \<or> PkgPath_sf lf \<noteq> [] then Inl Panic
           else if post = [] then
             Inr (RV (PtrTo E) (Loc a' (path @ [?j])) False False, (h @ [zero E])[a' := obj])
           else reflectOfLoop (length index) ((h @ [zero E])[a' := obj])
                  (RV E (Loc (length h) []) False False) (Suc (length pre)) post)"
    by blast
  let ?h2 = "(h @ [zero E])[a' := obj]"
  have h2a: "?h2 ! a' = obj" and h2n: "?h2 ! length h = zero E" and h2l: "length ?h2 = Suc (length h)"
    using assms(8) by (simp_all add: nth_append)
  have p1: "sro \<or> PkgPath_sf lf \<noteq> [] \<longrightarrow>
       snd (setupValuerAndSetter index ft) h ?inst = Inl Panic"
    using wr by simp
  have p2: "\<not> sro \<and> PkgPath_sf lf = [] \<longrightarrow>
       (\<exists>obj. set_at (h ! a') (path @ [?j]) (VPtr (Some (length h))) = Some obj \<and>
          snd (setupValuerAndSetter index ft) h ?inst
            = (if post = [] then
                 Inr (RV (PtrTo E) (Loc a' (path @ [?j])) False False, (h @ [zero E])[a' := obj])
               else reflectOfLoop (length index) ((h @ [zero E])[a' := obj])
                      (RV E (Loc (length h) []) False False) (Suc (length pre)) post))"
    using obj(1) wr by auto
  have p3: "\<forall>slot h'. snd (setupValuerAndSetter index ft) h ?inst = Inr (slot, h') \<longrightarrow>
       length h < length h' \<and> get_at (h' ! a') (path @ [?j]) = Some (VPtr (Some (length h)))"
  proof (intro allI impI)
    fix slot h' assume r: "snd (setupValuerAndSetter index ft) h ?inst = Inr (slot, h')"
    have k: "linksKept ?h2 h'"
    proof (cases "post = []")
      case True
      with r wr have "h' = ?h2" by (auto split: if_splits)
      then show ?thesis by (simp add: linksKept_refl)
    next
      case False
      with r wr have "reflectOfLoop (length index) ?h2 (RV E (Loc (length h) []) False False)
          (Suc (length pre)) post = Inr (slot, h')"
        by (auto split: if_splits)
      from reflectOfLoop_keeps[OF this] show ?thesis .
    qed
    have "a' < length ?h2" using assms(8) by simp
    with k h2a obj(2) h2l show "length h < length h' \<and>
        get_at (h' ! a') (path @ [?j]) = Some (VPtr (Some (length h)))"
      unfolding linksKept_def by (metis Suc_le_lessD)
  qed
  have p4: "\<forall>q sf. post = [int q] \<and> fieldAt E q = Some sf \<and> kindOf (Type_sf sf) \<noteq> KPtr \<and>
         \<not> sro \<and> PkgPath_sf lf = [] \<longrightarrow>
       (\<exists>h'. snd (setupValuerAndSetter index ft) h ?inst
                = Inr (RV (Type_sf sf) (Loc (length h) [q])
                        (PkgPath_sf sf \<noteq> [] \<and> \<not> Anonymous_sf sf)
                        (PkgPath_sf sf \<noteq> [] \<and> Anonymous_sf sf), h') \<and>
             h' ! length h = zero E \<and>
             (PkgPath_sf sf = [] \<longrightarrow>
                fst (setupValuerAndSetter index ft) h' ?inst
                  = Inr ((Iface (Type_sf sf) (zero (Type_sf sf)), True), h')))"
  proof (intro allI impI)
    fix q sf
    assume c: "post = [int q] \<and> fieldAt E q = Some sf \<and> kindOf (Type_sf sf) \<noteq> KPtr \<and>
         \<not> sro \<and> PkgPath_sf lf = []"
    then have post: "post = [int q]" and sf: "fieldAt E q = Some sf"
      and np: "kindOf (Type_sf sf) \<noteq> KPtr" and nsro: "\<not> sro" and exl: "PkgPath_sf lf = []"
      by blast+
    have w: "snd (setupValuerAndSetter index ft) h ?inst
        = Inr (RV (Type_sf sf) (Loc (length h) [q])
                (PkgPath_sf sf \<noteq> [] \<and> \<not> Anonymous_sf sf)
                (PkgPath_sf sf \<noteq> [] \<and> Anonymous_sf sf), ?h2)"
      using wr nsro exl post np by (simp add: Field_rv_Loc[OF sf] Kind_rv_def)
    have ld2: "load ?h2 (Loc a' (path @ [?j])) = Some (VPtr (Some (length h)))"
      using assms(8) obj(2) by (simp add: load_def)
    have wk2: "walk ?h2 (RV T (Loc a []) False False) pre = Some (RV S (Loc a' path) sro ero)"
      using walk_linksKept[OF assms(4) linksKept_new_link[OF assms(8,9) obj(1)]] .
    have r2: "fst (setupValuerAndSetter index ft) ?h2 ?inst
        = Inr ((Iface (Type_sf sf) (zero (Type_sf sf)), True), ?h2)" if e: "PkgPath_sf sf = []"
    proof -
      have "fst (setupValuerAndSetter index ft) ?h2 ?inst
          = valueOfLoop ?h2 (RV E (Loc (length h) []) False False) [int q]"
        using accessors_general(1)[OF ix, of ft ?h2 T a]
          valueOfLoop_walk[OF wk2, of "idx # post"]
          valueOfLoop_link[OF assms(2,5,6,7) ld2, of sro ero post]
          assms(1) post nsro exl
        by simp
      also have "\<dots> = Inr ((Iface (Type_sf sf) (zero (Type_sf sf)), True), ?h2)"
        using e h2n get_at_zero[OF sf] isZero_iff_zero(1)[OF hasType_zero(1), of "Type_sf sf"]
        by (simp add: Field_rv_Loc[OF sf] Interface_rv_def IsZero_rv_def load_def)
      finally show ?thesis .
    qed
    from w h2n r2 show "\<exists>h'. snd (setupValuerAndSetter index ft) h ?inst
                = Inr (RV (Type_sf sf) (Loc (length h) [q])
                        (PkgPath_sf sf \<noteq> [] \<and> \<not> Anonymous_sf sf)
                        (PkgPath_sf sf \<noteq> [] \<and> Anonymous_sf sf), h') \<and>
             h' ! length h = zero E \<and>
             (PkgPath_sf sf = [] \<longrightarrow>
                fst (setupValuerAndSetter index ft) h' ?inst
                  = Inr ((Iface (Type_sf sf) (zero (Type_sf sf)), True), h'))"
      by (intro exI[of _ ?h2]) blast
  qed
  from rd p1 p2 p3 p4 show ?thesis by blast
qed

theorem nil_pointer_link_read_and_bridged_witness:
  "fst (setupValuerAndSetter [- 2, 1] (Basic BInt ''int'' [])) [zero OuterPtrT]
      (instanceValue OuterPtrT 0)
     = Inr ((NilIface, True), [zero OuterPtrT]) \<and>
   (\<exists>h'. snd (setupValuerAndSetter [- 2, 1] (Basic BInt ''int'' [])) [zero OuterPtrT]
            (instanceValue OuterPtrT 0)
           = Inr (RV (Basic BInt ''int'' []) (Loc 1 [1]) False False, h') \<and>
         1 < length h' \<and>
         get_at (h' ! 0) [1] = Some (VPtr (Some 1)) \<and>
         h' ! 1 = zero InnerT \<and>
         fst (setupValuerAndSetter [- 2, 1] (Basic BInt ''int'' [])) h' (instanceValue OuterPtrT 0)
           = Inr ((Iface (Basic BInt ''int'' []) (VInt 0), True), h'))"
proof -
  let ?lf = "MkStructField ''Inner'' [] (PtrTo InnerT) [(''bson'', '',inline'')] True"
  let ?sf = "MkStructField ''B'' [] (Basic BInt ''int'' []) [] False"
  let ?h = "[zero OuterPtrT]"
  let ?ft = "Basic BInt ''int'' []"
  have 1: "[- 2, 1] = [] @ (- 2) # [1::int]" by simp
  have 2: "(- 2::int) < 0" by simp
  have 3: "[1::int] \<noteq> [] \<or> 2 \<le> length ([]::int list)" by simp
  have 4: "walk ?h (RV OuterPtrT (Loc 0 []) False False) []
      = Some (RV OuterPtrT (Loc 0 []) False False)"
    by simp
  have 5: "fieldAt OuterPtrT (nat (- (- 2) - 1)) = Some ?lf" by (simp add: OuterPtrT_def)
  have 6: "Type_sf ?lf = PtrTo InnerT" by simp
  have 7: "kindOf InnerT = KStruct" by (simp add: InnerT_def)
  have 8: "(0::nat) < length ?h" by simp
  have 9: "get_at (?h ! 0) ([] @ [nat (- (- 2) - 1)]) = Some (VPtr None)"
    by (simp add: OuterPtrT_def)
  note r = nil_pointer_link_read_and_bridged[OF 1 2 3 4 5 6 7 8 9, of ?ft]
  from r have a: "fst (setupValuerAndSetter [- 2, 1] ?ft) ?h (instanceValue OuterPtrT 0)
      = Inr ((NilIface, True), ?h)" by blast
  have c: "[1::int] = [int 1] \<and> fieldAt InnerT 1 = Some ?sf \<and> kindOf (Type_sf ?sf) \<noteq> KPtr \<and>
      \<not> False \<and> PkgPath_sf ?lf = []"
    by (simp add: InnerT_def)
  from r c obtain h' where
    w: "snd (setupValuerAndSetter [- 2, 1] ?ft) ?h (instanceValue OuterPtrT 0)
          = Inr (RV (Type_sf ?sf) (Loc (length ?h) [1])
                  (PkgPath_sf ?sf \<noteq> [] \<and> \<not> Anonymous_sf ?sf)
                  (PkgPath_sf ?sf \<noteq> [] \<and> Anonymous_sf ?sf), h')"
    and n: "h' ! length ?h = zero InnerT"
    and v: "PkgPath_sf ?sf = [] \<longrightarrow>
       fst (setupValuerAndSetter [- 2, 1] ?ft) h' (instanceValue OuterPtrT 0)
         = Inr ((Iface (Type_sf ?sf) (zero (Type_sf ?sf)), True), h')"
    by blast
  from r w have l: "length ?h < length h' \<and>
      get_at (h' ! 0) ([] @ [nat (- (- 2) - 1)]) = Some (VPtr (Some (length ?h)))" by blast
  from a w n v l show ?thesis by (intro conjI exI[of _ h']) simp_all
qed

end
